theory Spec2Isabelle
  imports Main "HOL-Library.Sublist"
begin

section \<open>The JavaScript built-ins that localize.ts calls\<close>

text \<open>
  A JavaScript string is a sequence of code units; every operation on the path of the
  translation engine compares code units for equality only, so a string is modelled as
  a \<open>char list\<close>. The characters that cannot be typed inside a string literal are
  written by their code: \<open>CHR 0x5C\<close> is the backslash, \<open>CHR 0x27\<close> the single quote
  and \<open>CHR 0x60\<close> the backtick.
\<close>

subsection \<open>Regular expressions\<close>

text \<open>
  The engine builds two regular expressions: the literal
  \<^verbatim>\<open>/[.*+?^${}()|[\]\\]/g\<close> of \<open>escapeRegex\<close>, and
  \<^verbatim>\<open>new RegExp(escapedOriginal, "g")\<close>. Both are sequences of atoms that each
  consume exactly one code unit: a pattern character, the wildcard \<open>.\<close> and a
  character class. Every other construct of the pattern language (quantifiers, groups,
  anchors, alternation, the escapes \<open>\d\<close>, \<open>\n\<close>, ...) is outside the fragment:
  \<open>RegExp\<close> answers \<open>InvalidRegExp\<close> for it, whether JavaScript would reject the pattern
  or give it a meaning, and \<open>RegExp_escapeRegex\<close> below shows that the engine never
  builds such a pattern. No flag but \<open>g\<close> is set, so code units are compared as they are
  (no case folding, no code points).
\<close>

datatype atom = Chr char | Dot | OneOf "char list"

type_synonym regex = "atom list"

datatype error =
    InvalidRegExp string
  | EISDIR string
  | ENOENT string
  | JSONSyntaxError string

definition syntax_chars :: "char list" where
  "syntax_chars = ''.*+?^${}()|[]'' @ [CHR 0x5C]"

fun atom_matches :: "atom \<Rightarrow> char \<Rightarrow> bool" where
  "atom_matches (Chr a) c = (a = c)"
| "atom_matches Dot c = (c \<noteq> CHR 0x0A \<and> c \<noteq> CHR 0x0D)"
| "atom_matches (OneOf cs) c = (c \<in> set cs)"

text \<open>\<open>match_here r s\<close>: the pattern matches at the start of \<open>s\<close>; the matched text is
  then \<open>take (length r) s\<close>.\<close>

fun match_here :: "regex \<Rightarrow> string \<Rightarrow> bool" where
  "match_here [] s = True"
| "match_here (a # as) [] = False"
| "match_here (a # as) (c # cs) = (atom_matches a c \<and> match_here as cs)"

text \<open>\<^verbatim>\<open>new RegExp(pattern, "g")\<close> on a pattern string: a backslash followed by a
  syntax character is an identity escape, a dot is the wildcard, any other character
  that is not a syntax character stands for itself.\<close>

fun parse_pattern :: "string \<Rightarrow> regex option" where
  "parse_pattern [] = Some []"
| "parse_pattern [c] =
     (if c = CHR ''.'' then Some [Dot]
      else if c \<in> set syntax_chars then None
      else Some [Chr c])"
| "parse_pattern (c # d # cs) =
     (if c = CHR 0x5C then
        (if d \<in> set syntax_chars then map_option (Cons (Chr d)) (parse_pattern cs)
         else None)
      else if c = CHR ''.'' then map_option (Cons Dot) (parse_pattern (d # cs))
      else if c \<in> set syntax_chars then None
      else map_option (Cons (Chr c)) (parse_pattern (d # cs)))"

definition RegExp :: "string \<Rightarrow> error + regex" where
  "RegExp pattern =
     (case parse_pattern pattern of None \<Rightarrow> Inl (InvalidRegExp pattern) | Some r \<Rightarrow> Inr r)"

subsection \<open>String.prototype.replace and String.prototype.match with a global regex\<close>

text \<open>
  The replacement template of \<open>replace\<close>, for a pattern without capture groups
  (ECMAScript GetSubstitution with an empty capture list): \<open>$$\<close> is a dollar sign,
  \<open>$&\<close> the matched text, \<open>$`\<close> the text before the match, \<open>$'\<close> the text after it; a
  dollar sign followed by anything else (a digit included, as there is no group it could
  name) is copied as it stands.
\<close>

fun GetSubstitution :: "string \<Rightarrow> string \<Rightarrow> string \<Rightarrow> string \<Rightarrow> string" where
  "GetSubstitution matched pre post [] = []"
| "GetSubstitution matched pre post [c] = [c]"
| "GetSubstitution matched pre post (c # d # t) =
     (if c = CHR ''$'' then
        (if d = CHR ''$'' then CHR ''$'' # GetSubstitution matched pre post t
         else if d = CHR ''&'' then matched @ GetSubstitution matched pre post t
         else if d = CHR 0x60 then pre @ GetSubstitution matched pre post t
         else if d = CHR 0x27 then post @ GetSubstitution matched pre post t
         else c # GetSubstitution matched pre post (d # t))
      else c # GetSubstitution matched pre post (d # t))"

text \<open>
  The global scan: the leftmost match at or after the current index is taken, the scan
  resumes where it ended, and after an empty match the index advances by one code unit.
  \<open>pre\<close> is the part of the subject already passed.
\<close>

function replace_from :: "regex \<Rightarrow> string \<Rightarrow> string \<Rightarrow> string \<Rightarrow> string" where
  "replace_from r template pre [] =
     (if match_here r [] then GetSubstitution [] pre [] template else [])"
| "replace_from r template pre (c # cs) =
     (if match_here r (c # cs) then
        (if r = [] then
           GetSubstitution [] pre (c # cs) template
             @ c # replace_from r template (pre @ [c]) cs
         else
           GetSubstitution (take (length r) (c # cs)) pre (drop (length r) (c # cs)) template
             @ replace_from r template (pre @ take (length r) (c # cs))
                 (drop (length r) (c # cs)))
      else c # replace_from r template (pre @ [c]) cs)"
  by pat_completeness auto
termination
proof -
  have len: "\<And>r s. match_here r s \<Longrightarrow> length r \<le> length s"
    subgoal for r s by (induction r s rule: match_here.induct) auto
    done
  show ?thesis
    by (relation "measure (\<lambda>(r, t, b, s). length s)") (auto dest: len)
qed

function matches_from :: "regex \<Rightarrow> string \<Rightarrow> string list" where
  "matches_from r [] = (if match_here r [] then [[]] else [])"
| "matches_from r (c # cs) =
     (if match_here r (c # cs) then
        (if r = [] then [] # matches_from r cs
         else take (length r) (c # cs) # matches_from r (drop (length r) (c # cs)))
      else matches_from r cs)"
  by pat_completeness auto
termination
proof -
  have len: "\<And>r s. match_here r s \<Longrightarrow> length r \<le> length s"
    subgoal for r s by (induction r s rule: match_here.induct) auto
    done
  show ?thesis
    by (relation "measure (\<lambda>(r, s). length s)") (auto dest: len)
qed

definition js_replace :: "regex \<Rightarrow> string \<Rightarrow> string \<Rightarrow> string" where
  "js_replace r template s = replace_from r template [] s"

text \<open>\<open>s.match(regex)\<close> is \<open>null\<close> when nothing matches, else the array of matched
  texts.\<close>

definition js_match :: "regex \<Rightarrow> string \<Rightarrow> string list option" where
  "js_match r s = (case matches_from r s of [] \<Rightarrow> None | m # ms \<Rightarrow> Some (m # ms))"

subsection \<open>path.join (POSIX)\<close>

text \<open>
  \<open>path.join\<close> as Node defines it where the separator is the slash: the arguments that
  are not empty are joined by slashes and the result is normalised.
\<close>

fun split_slash :: "string \<Rightarrow> string list" where
  "split_slash [] = [[]]"
| "split_slash (c # cs) =
     (if c = CHR ''/'' then [] # split_slash cs
      else (case split_slash cs of [] \<Rightarrow> [[c]] | seg # segs \<Rightarrow> (c # seg) # segs))"

fun join_slash :: "string list \<Rightarrow> string" where
  "join_slash [] = []"
| "join_slash [seg] = seg"
| "join_slash (seg # segs) = seg @ CHR ''/'' # join_slash segs"

text \<open>The segment stack of Node's \<open>normalizeString\<close>, top first: empty segments and
  \<open>.\<close> are dropped, \<open>..\<close> removes the segment before it when there is one that is not
  itself \<open>..\<close>, and is kept only where the path may climb above its start.\<close>

fun normalizeString :: "bool \<Rightarrow> string list \<Rightarrow> string list \<Rightarrow> string list" where
  "normalizeString allowAboveRoot stack [] = rev stack"
| "normalizeString allowAboveRoot stack (seg # segs) =
     (if seg = [] \<or> seg = ''.'' then normalizeString allowAboveRoot stack segs
      else if seg = ''..'' then
        (case stack of
           [] \<Rightarrow> normalizeString allowAboveRoot (if allowAboveRoot then [seg] else []) segs
         | seg' # below \<Rightarrow>
             if seg' \<noteq> ''..'' then normalizeString allowAboveRoot below segs
             else normalizeString allowAboveRoot
                    (if allowAboveRoot then seg # stack else stack) segs)
      else normalizeString allowAboveRoot (seg # stack) segs)"

definition normalize :: "string \<Rightarrow> string" where
  "normalize p =
     (if p = [] then ''.''
      else
        let isAbsolute = (hd p = CHR ''/'');
            trailingSeparator = (last p = CHR ''/'');
            q = join_slash (normalizeString (\<not> isAbsolute) [] (split_slash p))
        in if q = [] then (if isAbsolute then ''/'' else if trailingSeparator then ''./'' else ''.'')
           else (if isAbsolute then ''/'' else []) @ q @ (if trailingSeparator then ''/'' else []))"

definition path_join :: "string list \<Rightarrow> string" where
  "path_join args =
     (case filter (\<lambda>a. a \<noteq> []) args of [] \<Rightarrow> ''.'' | a # as \<Rightarrow> normalize (join_slash (a # as)))"

subsection \<open>The file system\<close>

datatype node = File string | Dir

text \<open>The file system is the map from paths to nodes, with the journal of the
  \<open>writeFileSync\<close> calls made so far (path and content, oldest first), so that the
  number of writes of a call can be stated.\<close>

record fs =
  nodes :: "string \<rightharpoonup> node"
  writes :: "(string \<times> string) list"

definition existsSync :: "fs \<Rightarrow> string \<Rightarrow> bool" where
  "existsSync disk p = (nodes disk p \<noteq> None)"

definition readFileSync :: "fs \<Rightarrow> string \<Rightarrow> error + string" where
  "readFileSync disk p =
     (case nodes disk p of
        None \<Rightarrow> Inl (ENOENT p)
      | Some Dir \<Rightarrow> Inl (EISDIR p)
      | Some (File s) \<Rightarrow> Inr s)"

definition writeFileSync :: "fs \<Rightarrow> string \<Rightarrow> string \<Rightarrow> error + fs" where
  "writeFileSync disk p s =
     (case nodes disk p of
        Some Dir \<Rightarrow> Inl (EISDIR p)
      | _ \<Rightarrow> Inr \<lparr>nodes = (nodes disk)(p \<mapsto> File s), writes = writes disk @ [(p, s)]\<rparr>)"

section \<open>localize.ts: the translation engine\<close>

record TranslationConfig =
  "file" :: "string option"
  description :: "string option"
  replacements :: "(string \<times> string) list"

text \<open>\<open>replacements\<close> is the sequence \<open>Object.entries(config.replacements)\<close> yields, in
  the order it yields it.\<close>

record ApplicationResult =
  res_file :: string
  res_replacements :: nat
  res_skipped :: bool
  res_reason :: "string option"

text \<open>\<^verbatim>\<open>str.replace(/[.*+?^${}()|[\]\\]/g, "\\$&")\<close>\<close>

definition escapeRegex :: "string \<Rightarrow> string" where
  "escapeRegex str = js_replace [OneOf syntax_chars] [CHR 0x5C, CHR ''$'', CHR ''&''] str"

text \<open>The body of the loop over the replacement pairs (lines 126 to 135), on the pair
  of \<open>content\<close> and \<open>totalReplacements\<close>.\<close>

fun replace_pair :: "string \<times> string \<Rightarrow> string \<times> nat \<Rightarrow> error + string \<times> nat" where
  "replace_pair (original, translated) (content, totalReplacements) =
     (if original = translated then Inr (content, totalReplacements)
      else
        (case RegExp (escapeRegex original) of
           Inl e \<Rightarrow> Inl e
         | Inr regex \<Rightarrow>
             (case js_match regex content of
                None \<Rightarrow> Inr (content, totalReplacements)
              | Some matches \<Rightarrow>
                  Inr (js_replace regex translated content,
                       totalReplacements + length matches))))"

fun replace_loop :: "(string \<times> string) list \<Rightarrow> string \<times> nat \<Rightarrow> error + string \<times> nat" where
  "replace_loop [] st = Inr st"
| "replace_loop (p # ps) st =
     (case replace_pair p st of Inl e \<Rightarrow> Inl e | Inr st' \<Rightarrow> replace_loop ps st')"

text \<open>\<open>relativeFilePath || config.file\<close>: the first operand unless it is falsy
  (\<open>undefined\<close> or the empty string).\<close>

definition js_or :: "string option \<Rightarrow> string option \<Rightarrow> string option" where
  "js_or a b = (case a of None \<Rightarrow> b | Some s \<Rightarrow> if s = [] then b else Some s)"

text \<open>Lines 109 to 114: the path below the tree root.\<close>

definition relativePath :: "string \<Rightarrow> string" where
  "relativePath targetFile =
     (if prefix ''src/'' targetFile then path_join [''packages'', ''opencode'', targetFile]
      else if \<not> prefix ''packages/'' targetFile then
        path_join [''packages'', ''opencode'', targetFile]
      else targetFile)"

definition filePath :: "string \<Rightarrow> string \<Rightarrow> string" where
  "filePath opencodeDir targetFile = path_join [opencodeDir, relativePath targetFile]"

definition no_file_specified :: ApplicationResult where
  "no_file_specified =
     \<lparr>res_file = ''unknown'', res_replacements = 0, res_skipped = True,
      res_reason = Some ''No file specified''\<rparr>"

definition file_not_found :: "string \<Rightarrow> ApplicationResult" where
  "file_not_found targetFile =
     \<lparr>res_file = targetFile, res_replacements = 0, res_skipped = True,
      res_reason = Some ''File not found''\<rparr>"

definition applied :: "string \<Rightarrow> nat \<Rightarrow> ApplicationResult" where
  "applied targetFile totalReplacements =
     \<lparr>res_file = targetFile, res_replacements = totalReplacements, res_skipped = False,
      res_reason = None\<rparr>"

text \<open>\<open>applyTranslation\<close> returns its result and the file system it leaves; an exception
  is \<open>Inl\<close>.\<close>

definition applyTranslation ::
  "fs \<Rightarrow> string \<Rightarrow> TranslationConfig \<Rightarrow> string option \<Rightarrow> error + ApplicationResult \<times> fs" where
  "applyTranslation disk opencodeDir config relativeFilePath =
     (case js_or relativeFilePath (file config) of
        None \<Rightarrow> Inr (no_file_specified, disk)
      | Some targetFile \<Rightarrow>
          if targetFile = [] then Inr (no_file_specified, disk)
          else if \<not> existsSync disk (filePath opencodeDir targetFile) then
            Inr (file_not_found targetFile, disk)
          else
            (case readFileSync disk (filePath opencodeDir targetFile) of
               Inl e \<Rightarrow> Inl e
             | Inr content0 \<Rightarrow>
                 (case replace_loop (replacements config) (content0, 0) of
                    Inl e \<Rightarrow> Inl e
                  | Inr (content, totalReplacements) \<Rightarrow>
                      if totalReplacements > 0 then
                        (case writeFileSync disk (filePath opencodeDir targetFile) content of
                           Inl e \<Rightarrow> Inl e
                         | Inr disk' \<Rightarrow> Inr (applied targetFile totalReplacements, disk'))
                      else Inr (applied targetFile totalReplacements, disk))))"

section \<open>localize.ts: the batch applier in main\<close>

record Modules =
  dialogs :: "string list option"
  components :: "string list option"
  routes :: "string list option"
  common :: "string list option"
  root :: "string list option"

text \<open>\<open>mdescription\<close> is the field \<open>description\<close> of \<open>ModuleConfig\<close>.\<close>

record ModuleConfig =
  name :: string
  version :: string
  mdescription :: string
  modules :: Modules

record Stats =
  filesProcessed :: nat
  filesSkipped :: nat
  totalReplacements :: nat
  errors :: "string list"

text \<open>One constructor for each \<open>console.log\<close> or \<open>log\<close> call on the path modelled, with
  the values it interpolates; the four lines of the version warning (\<open>Warn_...\<close>) are
  printed in yellow, \<open>Ok_version_match\<close> in green.\<close>

datatype line =
    Warn_version_mismatch
  | Warn_opencode_version string
  | Warn_plugin_version string
  | Warn_untranslated
  | Ok_version_match string
  | Applying_translations
  | Category string
  | Warning_not_found string
  | Skipped string "string option"
  | Replaced string nat
  | No_matches string
  | Blank
  | Summary_rule
  | Summary
  | Files_processed nat
  | Files_skipped nat
  | Total_replacements nat
  | Localization_complete

text \<open>What the run has done so far: the statistics, the file system and the lines
  printed.\<close>

record run =
  stats :: Stats
  fsys :: fs
  console :: "line list"

text \<open>\<open>loadTranslationFile\<close>: \<open>null\<close> for a missing document. \<open>JSON_parse\<close> stands for
  \<open>JSON.parse\<close> followed by the reading of the value as a \<open>TranslationConfig\<close>; it is
  \<open>None\<close> where \<open>JSON.parse\<close> throws. The warning line of the missing document is
  printed by \<open>process_file\<close> below.\<close>

definition loadTranslationFile ::
  "(string \<Rightarrow> TranslationConfig option) \<Rightarrow> fs \<Rightarrow> string \<Rightarrow> string
     \<Rightarrow> error + TranslationConfig option" where
  "loadTranslationFile JSON_parse disk translationsDir relPath =
     (if \<not> existsSync disk (path_join [translationsDir, relPath]) then Inr None
      else
        (case readFileSync disk (path_join [translationsDir, relPath]) of
           Inl e \<Rightarrow> Inl e
         | Inr text \<Rightarrow>
             (case JSON_parse text of
                None \<Rightarrow> Inl (JSONSyntaxError (path_join [translationsDir, relPath]))
              | Some config \<Rightarrow> Inr (Some config))))"

definition skip_file :: "Stats \<Rightarrow> Stats" where
  "skip_file s = s\<lparr>filesSkipped := filesSkipped s + 1\<rparr>"

definition count_file :: "nat \<Rightarrow> Stats \<Rightarrow> Stats" where
  "count_file n s =
     s\<lparr>filesProcessed := filesProcessed s + 1, totalReplacements := totalReplacements s + n\<rparr>"

definition touch_file :: "Stats \<Rightarrow> Stats" where
  "touch_file s = s\<lparr>filesProcessed := filesProcessed s + 1\<rparr>"

text \<open>The body of the loop of \<open>processModule\<close> (lines 514 to 532).\<close>

definition process_file ::
  "(string \<Rightarrow> TranslationConfig option) \<Rightarrow> string \<Rightarrow> string \<Rightarrow> string \<Rightarrow> run \<Rightarrow> error + run" where
  "process_file JSON_parse opencodeDir translationsDir f st =
     (case loadTranslationFile JSON_parse (fsys st) translationsDir f of
        Inl e \<Rightarrow> Inl e
      | Inr None \<Rightarrow>
          Inr (st\<lparr>stats := skip_file (stats st), console := console st @ [Warning_not_found f]\<rparr>)
      | Inr (Some config) \<Rightarrow>
          (case applyTranslation (fsys st) opencodeDir config None of
             Inl e \<Rightarrow> Inl e
           | Inr (result, disk') \<Rightarrow>
               if res_skipped result then
                 Inr \<lparr>stats = skip_file (stats st), fsys = disk',
                      console = console st @ [Skipped (res_file result) (res_reason result)]\<rparr>
               else if res_replacements result > 0 then
                 Inr \<lparr>stats = count_file (res_replacements result) (stats st), fsys = disk',
                      console = console st
                        @ [Replaced (res_file result) (res_replacements result)]\<rparr>
               else
                 Inr \<lparr>stats = touch_file (stats st), fsys = disk',
                      console = console st @ [No_matches (res_file result)]\<rparr>))"

fun process_files ::
  "(string \<Rightarrow> TranslationConfig option) \<Rightarrow> string \<Rightarrow> string \<Rightarrow> string list \<Rightarrow> run \<Rightarrow> error + run" where
  "process_files JSON_parse opencodeDir translationsDir [] st = Inr st"
| "process_files JSON_parse opencodeDir translationsDir (f # files) st =
     (case process_file JSON_parse opencodeDir translationsDir f st of
        Inl e \<Rightarrow> Inl e
      | Inr st' \<Rightarrow> process_files JSON_parse opencodeDir translationsDir files st')"

definition processModule ::
  "(string \<Rightarrow> TranslationConfig option) \<Rightarrow> string \<Rightarrow> string \<Rightarrow> string \<Rightarrow> string list \<Rightarrow> run
     \<Rightarrow> error + run" where
  "processModule JSON_parse opencodeDir translationsDir category files st =
     (case process_files JSON_parse opencodeDir translationsDir files
             (st\<lparr>console := console st @ [Category category]\<rparr>) of
        Inl e \<Rightarrow> Inl e
      | Inr st' \<Rightarrow> Inr (st'\<lparr>console := console st' @ [Blank]\<rparr>))"

text \<open>\<^verbatim>\<open>if (modules.root) { processModule("root", modules.root) }\<close>: an absent category
  is passed over, a present one is processed even when it is empty.\<close>

definition process_category ::
  "(string \<Rightarrow> TranslationConfig option) \<Rightarrow> string \<Rightarrow> string \<Rightarrow> string \<Rightarrow> string list option
     \<Rightarrow> error + run \<Rightarrow> error + run" where
  "process_category JSON_parse opencodeDir translationsDir category files r =
     (case r of
        Inl e \<Rightarrow> Inl e
      | Inr st \<Rightarrow>
          (case files of
             None \<Rightarrow> Inr st
           | Some fl \<Rightarrow> processModule JSON_parse opencodeDir translationsDir category fl st))"

definition version_lines :: "string \<Rightarrow> string \<Rightarrow> line list" where
  "version_lines currentVersion configVersion =
     (if currentVersion \<noteq> configVersion then
        [Warn_version_mismatch, Warn_opencode_version currentVersion,
         Warn_plugin_version configVersion, Warn_untranslated]
      else [Ok_version_match currentVersion])"

definition summary_lines :: "Stats \<Rightarrow> line list" where
  "summary_lines s =
     [Summary_rule, Summary, Files_processed (filesProcessed s), Files_skipped (filesSkipped s),
      Total_replacements (totalReplacements s), Localization_complete]"

text \<open>
  \<open>main\<close> from the version check to the summary (lines 493 to 560), which is the run
  without \<open>--install\<close> and \<open>--upgrade\<close>. \<open>currentVersion\<close> is what \<open>getOpenCodeVersion\<close>
  returned and \<open>moduleConfig\<close> what \<open>loadModuleConfig\<close> returned.
\<close>

definition main ::
  "(string \<Rightarrow> TranslationConfig option) \<Rightarrow> fs \<Rightarrow> string \<Rightarrow> string \<Rightarrow> string \<Rightarrow> ModuleConfig
     \<Rightarrow> error + run" where
  "main JSON_parse disk opencodeDir translationsDir currentVersion moduleConfig =
     (case
        process_category JSON_parse opencodeDir translationsDir ''common''
          (common (modules moduleConfig))
       (process_category JSON_parse opencodeDir translationsDir ''routes''
          (routes (modules moduleConfig))
       (process_category JSON_parse opencodeDir translationsDir ''components''
          (components (modules moduleConfig))
       (process_category JSON_parse opencodeDir translationsDir ''dialogs''
          (dialogs (modules moduleConfig))
       (process_category JSON_parse opencodeDir translationsDir ''root''
          (root (modules moduleConfig))
       (Inr \<lparr>stats = \<lparr>filesProcessed = 0, filesSkipped = 0, totalReplacements = 0,
                       errors = []\<rparr>,
             fsys = disk,
             console = version_lines currentVersion (version moduleConfig)
                         @ [Applying_translations]\<rparr>)))))
      of
        Inl e \<Rightarrow> Inl e
      | Inr st \<Rightarrow> Inr (st\<lparr>console := console st @ summary_lines (stats st)\<rparr>))"

section \<open>Literal replacement, for comparison\<close>

text \<open>
  What the specification asks of one replacement pair, written without regular
  expressions: every non-overlapping occurrence of the fragment, left to right, is
  replaced by a fixed text, and the occurrences are counted. An empty fragment occurs
  before every code unit and at the end.
\<close>

function replace_literal :: "string \<Rightarrow> string \<Rightarrow> string \<Rightarrow> string" where
  "replace_literal fragment new [] = (if fragment = [] then new else [])"
| "replace_literal fragment new (c # cs) =
     (if prefix fragment (c # cs) then
        (if fragment = [] then new @ c # replace_literal fragment new cs
         else new @ replace_literal fragment new (drop (length fragment) (c # cs)))
      else c # replace_literal fragment new cs)"
  by pat_completeness auto
termination
  by (relation "measure (\<lambda>(f, n, s). length s)") (auto dest: prefix_length_le)

function count_literal :: "string \<Rightarrow> string \<Rightarrow> nat" where
  "count_literal fragment [] = (if fragment = [] then 1 else 0)"
| "count_literal fragment (c # cs) =
     (if prefix fragment (c # cs) then
        (if fragment = [] then Suc (count_literal fragment cs)
         else Suc (count_literal fragment (drop (length fragment) (c # cs))))
      else count_literal fragment cs)"
  by pat_completeness auto
termination
  by (relation "measure (\<lambda>(f, s). length s)") (auto dest: prefix_length_le)

text \<open>What \<open>escapeRegex\<close> does to one code unit (see \<open>escapeRegex_concat\<close>).\<close>

definition escape_char :: "char \<Rightarrow> string" where
  "escape_char c = (if c \<in> set syntax_chars then [CHR 0x5C, c] else [c])"

text \<open>What a run leaves behind, the printed lines apart.\<close>

definition outcome :: "run \<Rightarrow> Stats \<times> fs" where
  "outcome st = (stats st, fsys st)"

section \<open>A manifest for the accounting example\<close>

text \<open>
  The manifest lists two documents under \<open>root\<close> and one under \<open>dialogs\<close>. The document
  \<open>root/b.json\<close> is not on disk; \<open>root/a.json\<close> replaces \<open>foo\<close> in a file that holds it
  three times; \<open>dialogs/c.json\<close> replaces \<open>foo\<close> in a file that does not hold it.
  \<open>accounting_docs\<close> is the reading of the two document files.
\<close>

definition accounting_docs :: "string \<Rightarrow> TranslationConfig option" where
  "accounting_docs raw =
     (if raw = ''A'' then
        Some \<lparr>file = Some ''src/a.ts'', description = None,
               replacements = [(''foo'', ''bar'')]\<rparr>
      else if raw = ''C'' then
        Some \<lparr>file = Some ''src/c.ts'', description = None,
               replacements = [(''foo'', ''bar'')]\<rparr>
      else None)"

definition accounting_disk :: fs where
  "accounting_disk =
     \<lparr>nodes = [''/tr/root/a.json'' \<mapsto> File ''A'',
               ''/tr/dialogs/c.json'' \<mapsto> File ''C'',
               ''/oc/packages/opencode/src/a.ts'' \<mapsto> File ''foo foo foo'',
               ''/oc/packages/opencode/src/c.ts'' \<mapsto> File ''hello''],
      writes = []\<rparr>"

definition accounting_manifest :: ModuleConfig where
  "accounting_manifest =
     \<lparr>name = ''opencode-zh'', version = ''1.2.10'', mdescription = [],
      modules = \<lparr>dialogs = Some [''dialogs/c.json''], components = None, routes = None,
                  common = None, root = Some [''root/a.json'', ''root/b.json'']\<rparr>\<rparr>"

section \<open>Paths that path.join leaves as they are\<close>

text \<open>
  A clean relative path has no empty segment (so no leading, trailing or doubled
  slash) and no segment \<open>.\<close> or \<open>..\<close>; a clean absolute path is a slash followed by a
  clean relative path.
\<close>

definition clean_segment :: "string \<Rightarrow> bool" where
  "clean_segment seg = (seg \<noteq> [] \<and> seg \<noteq> ''.'' \<and> seg \<noteq> ''..'')"

definition clean_relative :: "string \<Rightarrow> bool" where
  "clean_relative p = list_all clean_segment (split_slash p)"

definition clean_absolute :: "string \<Rightarrow> bool" where
  "clean_absolute p = (case p of [] \<Rightarrow> False | c # q \<Rightarrow> c = CHR ''/'' \<and> clean_relative q)"

section \<open>Documents and contents on which a second run finds nothing\<close>



text \<open>
  A plain template is a translated value in which no dollar sign is followed by \<open>$\<close>,
  \<open>&\<close>, a backtick or a single quote, read left to right as \<open>GetSubstitution\<close> reads
  it: the text \<open>replace\<close> inserts for it is the value itself.
\<close>

fun plain_template :: "string \<Rightarrow> bool" where
  "plain_template [] = True"
| "plain_template [c] = True"
| "plain_template (c # d # r) =
     (if c = CHR ''$'' then
        d \<noteq> CHR ''$'' \<and> d \<noteq> CHR ''&'' \<and> d \<noteq> CHR 0x60 \<and> d \<noteq> CHR 0x27
        \<and> plain_template (d # r)
      else plain_template (d # r))"



section \<open>The regular expression of a replacement pair\<close>

lemma match_here_Nil: "match_here r [] = (r = [])"
  by (cases r) simp_all

lemma replace_from_class:
  "replace_from [OneOf syntax_chars] [CHR 0x5C, CHR ''$'', CHR ''&''] pre s
     = concat (map escape_char s)"
  by (induction s arbitrary: pre) (simp_all add: escape_char_def)

lemma escapeRegex_concat: "escapeRegex s = concat (map escape_char s)"
  by (simp add: escapeRegex_def js_replace_def replace_from_class)

lemma escapeRegex_Nil: "escapeRegex [] = []"
  by (simp add: escapeRegex_concat)

lemma escapeRegex_Cons: "escapeRegex (c # cs) = escape_char c @ escapeRegex cs"
  by (simp add: escapeRegex_concat)

lemma escapeRegex_eq_Nil: "escapeRegex s = [] \<longleftrightarrow> s = []"
  by (cases s) (simp_all add: escapeRegex_concat escape_char_def)

lemma parse_pattern_escapeRegex: "parse_pattern (escapeRegex s) = Some (map Chr s)"
proof (induction s)
  case Nil
  show ?case by (simp add: escapeRegex_Nil)
next
  case (Cons c cs)
  show ?case
  proof (cases "c \<in> set syntax_chars")
    case True
    then show ?thesis
      using Cons.IH by (simp add: escapeRegex_Cons escape_char_def)
  next
    case False
    then have dot: "c \<noteq> CHR ''.''" and bs: "c \<noteq> CHR 0x5C"
      by (auto simp: syntax_chars_def)
    show ?thesis
    proof (cases "escapeRegex cs")
      case Nil
      then have "cs = []" by (simp add: escapeRegex_eq_Nil)
      with False dot Nil show ?thesis
        by (simp add: escapeRegex_Cons escape_char_def)
    next
      case (Cons d ds)
      with False dot bs Cons.IH show ?thesis
        by (simp add: escapeRegex_Cons escape_char_def)
    qed
  qed
qed

lemma RegExp_escapeRegex: "RegExp (escapeRegex s) = Inr (map Chr s)"
  by (simp add: RegExp_def parse_pattern_escapeRegex)

lemma match_here_literal: "match_here (map Chr fragment) s = prefix fragment s"
proof (induction fragment arbitrary: s)
  case Nil
  show ?case by simp
next
  case (Cons a as)
  show ?case by (cases s) (auto simp: Cons.IH)
qed

lemma GetSubstitution_literal:
  "CHR ''$'' \<notin> set t \<Longrightarrow> GetSubstitution m pre post t = t"
  by (induction m pre post t rule: GetSubstitution.induct) auto

lemma matches_from_count:
  "length (matches_from (map Chr fragment) s) = count_literal fragment s"
  by (induction fragment s rule: count_literal.induct)
     (simp_all add: match_here_literal)

lemma matches_from_replicate:
  "matches_from (map Chr fragment) s = replicate (count_literal fragment s) fragment"
proof (induction fragment s rule: count_literal.induct)
  case (1 fragment)
  show ?case by (simp add: match_here_Nil)
next
  case (2 fragment c cs)
  show ?case
  proof (cases "prefix fragment (c # cs)")
    case True
    then have "take (length fragment) (c # cs) = fragment"
      by (metis append_eq_conv_conj prefix_def)
    with True 2 show ?thesis by (simp add: match_here_literal)
  next
    case False
    with 2 show ?thesis by (simp add: match_here_literal)
  qed
qed

lemma replace_from_literal:
  "CHR ''$'' \<notin> set t \<Longrightarrow>
     replace_from (map Chr fragment) t pre s = replace_literal fragment t s"
proof (induction fragment t s arbitrary: pre rule: replace_literal.induct)
  case (1 fragment new)
  then show ?case by (simp add: GetSubstitution_literal match_here_Nil)
next
  case (2 fragment new c cs)
  then show ?case
    by (simp add: match_here_literal GetSubstitution_literal)
qed

lemma GetSubstitution_plain:
  "plain_template t \<Longrightarrow> GetSubstitution m pre post t = t"
  by (induction m pre post t rule: GetSubstitution.induct) (auto split: if_splits)

lemma plain_template_no_dollar: "CHR ''$'' \<notin> set t \<Longrightarrow> plain_template t"
  by (induction t rule: plain_template.induct) auto

lemma replace_from_plain:
  "plain_template t \<Longrightarrow>
     replace_from (map Chr fragment) t pre s = replace_literal fragment t s"
proof (induction fragment t s arbitrary: pre rule: replace_literal.induct)
  case (1 fragment new)
  then show ?case by (simp add: GetSubstitution_plain match_here_Nil)
next
  case (2 fragment new c cs)
  then show ?case
    by (simp add: match_here_literal GetSubstitution_plain)
qed

lemma replace_from_no_match:
  "matches_from r s = [] \<Longrightarrow> replace_from r t pre s = s"
proof (induction r s arbitrary: pre rule: matches_from.induct)
  case (1 r)
  then show ?case by (simp add: match_here_Nil split: if_splits)
next
  case (2 r c cs)
  then show ?case by (cases "match_here r (c # cs)") (auto split: if_splits)
qed

lemma count_literal_zero: "count_literal fragment s = 0 \<longleftrightarrow> \<not> sublist fragment s"
proof (induction fragment s rule: count_literal.induct)
  case (1 fragment)
  show ?case by simp
next
  case (2 fragment c cs)
  show ?case
  proof (cases "prefix fragment (c # cs)")
    case True
    then show ?thesis by (auto simp: sublist_Cons_right)
  next
    case False
    with 2 show ?thesis by (simp add: sublist_Cons_right)
  qed
qed

lemma replace_pair_literal:
  "replace_pair (original, translated) (content, n) =
     Inr (if original = translated then (content, n)
          else (js_replace (map Chr original) translated content,
                n + count_literal original content))"
proof (cases "matches_from (map Chr original) content")
  case Nil
  then have "count_literal original content = 0"
    using matches_from_count[of original content] by simp
  with Nil show ?thesis
    by (simp add: RegExp_escapeRegex js_match_def js_replace_def replace_from_no_match)
next
  case (Cons m ms)
  then show ?thesis
    using matches_from_count[of original content]
    by (simp add: RegExp_escapeRegex js_match_def)
qed

lemma replace_loop_append:
  "replace_loop (ps @ qs) st =
     (case replace_loop ps st of Inl e \<Rightarrow> Inl e | Inr st' \<Rightarrow> replace_loop qs st')"
  by (induction ps arbitrary: st) (simp_all split: sum.splits)

lemma replace_pair_equal: "replace_pair (x, x) st = Inr st"
  by (cases st) simp

lemma js_match_literal:
  "js_match (map Chr fragment) s =
     (if sublist fragment s then Some (replicate (count_literal fragment s) fragment) else None)"
proof (cases "count_literal fragment s")
  case 0
  then show ?thesis
    using count_literal_zero[of fragment s]
    by (simp add: js_match_def matches_from_replicate)
next
  case (Suc k)
  then show ?thesis
    using count_literal_zero[of fragment s]
    by (simp add: js_match_def matches_from_replicate)
qed

lemma js_replace_no_occurrence:
  "\<not> sublist fragment s \<Longrightarrow> js_replace (map Chr fragment) t s = s"
  using count_literal_zero[of fragment s] matches_from_count[of fragment s]
  by (simp add: js_replace_def replace_from_no_match)

lemmas run_defs = escapeRegex_def js_replace_def js_match_def RegExp_def syntax_chars_def


lemma applyTranslation_result:
  assumes "applyTranslation disk od config rel = Inr (result, disk')"
  shows "((js_or rel (file config) = None \<or> js_or rel (file config) = Some [])
            \<and> result = no_file_specified \<and> disk' = disk)
       \<or> (\<exists>t. js_or rel (file config) = Some t \<and> t \<noteq> []
             \<and> \<not> existsSync disk (filePath od t)
             \<and> result = file_not_found t \<and> disk' = disk)
       \<or> (\<exists>t c0 c n. js_or rel (file config) = Some t \<and> t \<noteq> []
             \<and> nodes disk (filePath od t) = Some (File c0)
             \<and> replace_loop (replacements config) (c0, 0) = Inr (c, n)
             \<and> result = applied t n
             \<and> disk' = (if n > 0
                   then \<lparr>nodes = (nodes disk)(filePath od t \<mapsto> File c),
                         writes = writes disk @ [(filePath od t, c)]\<rparr>
                   else disk))"
  using assms
  by (auto simp: applyTranslation_def existsSync_def readFileSync_def writeFileSync_def
           split: option.splits if_splits sum.splits node.splits prod.splits)

lemma applyTranslation_applied:
  assumes "js_or rel (file config) = Some t" and "t \<noteq> []"
    and "nodes disk (filePath od t) = Some (File c0)"
    and "replace_loop (replacements config) (c0, 0) = Inr (c, n)"
  shows "applyTranslation disk od config rel =
     Inr (applied t n,
          if n > 0 then \<lparr>nodes = (nodes disk)(filePath od t \<mapsto> File c),
                          writes = writes disk @ [(filePath od t, c)]\<rparr>
          else disk)"
  using assms
  by (simp add: applyTranslation_def existsSync_def readFileSync_def writeFileSync_def)

lemma js_or_falsy:
  "(js_or rel f = None \<or> js_or rel f = Some []) =
     ((rel = None \<or> rel = Some []) \<and> (f = None \<or> f = Some []))"
  by (auto simp: js_or_def split: option.splits)

section \<open>path.join on clean paths\<close>

lemma split_slash_not_Nil: "split_slash p \<noteq> []"
  by (cases p) (auto split: list.splits)

lemma join_slash_Cons: "segs \<noteq> [] \<Longrightarrow> join_slash (seg # segs) = seg @ CHR ''/'' # join_slash segs"
  by (cases segs) simp_all

lemma join_slash_push: "join_slash ((c # seg) # segs) = c # join_slash (seg # segs)"
  by (cases segs) simp_all

lemma join_split: "join_slash (split_slash p) = p"
proof (induction p)
  case Nil
  show ?case by simp
next
  case (Cons c p)
  show ?case
  proof (cases "c = CHR ''/''")
    case True
    with Cons show ?thesis by (simp add: join_slash_Cons split_slash_not_Nil)
  next
    case False
    obtain seg segs where s: "split_slash p = seg # segs"
      using split_slash_not_Nil[of p] by (cases "split_slash p") auto
    with False Cons show ?thesis by (simp add: join_slash_push)
  qed
qed

lemma split_slash_append:
  "split_slash (a @ CHR ''/'' # b) = split_slash a @ split_slash b"
proof (induction a)
  case Nil
  show ?case by simp
next
  case (Cons c a)
  obtain seg segs where s: "split_slash a = seg # segs"
    using split_slash_not_Nil[of a] by (cases "split_slash a") auto
  with Cons show ?case by simp
qed

lemma join_slash_append:
  "xs \<noteq> [] \<Longrightarrow> ys \<noteq> [] \<Longrightarrow> join_slash (xs @ ys) = join_slash xs @ CHR ''/'' # join_slash ys"
proof (induction xs)
  case Nil
  then show ?case by simp
next
  case (Cons x xs)
  show ?case
  proof (cases xs)
    case Nil
    with Cons.prems show ?thesis by (simp add: join_slash_Cons)
  next
    case (Cons x' xs')
    with Cons.IH Cons.prems show ?thesis by simp
  qed
qed

lemma normalizeString_clean:
  "list_all clean_segment segs \<Longrightarrow> normalizeString allow stack segs = rev stack @ segs"
  by (induction segs arbitrary: stack) (simp_all add: clean_segment_def)

lemma clean_relative_not_Nil: "clean_relative p \<Longrightarrow> p \<noteq> []"
  by (auto simp: clean_relative_def clean_segment_def)

lemma last_slash_split: "p \<noteq> [] \<Longrightarrow> last p = CHR ''/'' \<Longrightarrow> last (split_slash p) = []"
proof (induction p)
  case Nil
  then show ?case by simp
next
  case (Cons c p)
  show ?case
  proof (cases p)
    case Nil
    with Cons.prems show ?thesis by simp
  next
    case (Cons d p')
    with Cons.IH Cons.prems have IH: "last (split_slash p) = []" by simp
    obtain seg segs where s: "split_slash p = seg # segs"
      using split_slash_not_Nil[of p] by (cases "split_slash p") auto
    show ?thesis
    proof (cases segs)
      case Nil
      with s IH have "split_slash p = [[]]" by simp
      then have "join_slash (split_slash p) = []" by simp
      then have "p = []" by (simp only: join_split)
      with Cons show ?thesis by simp
    next
      case (Cons s2 segs2)
      with s IH show ?thesis by (simp split: list.splits)
    qed
  qed
qed

lemma clean_relative_last: "clean_relative p \<Longrightarrow> last p \<noteq> CHR ''/''"
proof
  assume c: "clean_relative p" and l: "last p = CHR ''/''"
  from last_slash_split[OF clean_relative_not_Nil[OF c] l]
  have "last (split_slash p) = []" .
  moreover have "last (split_slash p) \<in> set (split_slash p)"
    using split_slash_not_Nil by simp
  ultimately show False
    using c by (auto simp: clean_relative_def clean_segment_def list_all_iff)
qed

lemma clean_relative_join:
  assumes "clean_relative a" and "clean_relative b"
  shows "clean_relative (a @ CHR ''/'' # b)"
  using assms by (simp add: clean_relative_def split_slash_append)

lemma normalize_clean_relative:
  assumes "clean_relative p"
  shows "normalize p = p"
proof -
  from assms have ne: "p \<noteq> []" by (rule clean_relative_not_Nil)
  have hd: "hd p \<noteq> CHR ''/''"
  proof
    assume "hd p = CHR ''/''"
    with ne obtain q where "p = CHR ''/'' # q" by (cases p) auto
    with assms show False by (simp add: clean_relative_def clean_segment_def)
  qed
  have q: "join_slash (normalizeString True [] (split_slash p)) = p"
    using assms by (simp add: clean_relative_def normalizeString_clean join_split)
  from ne hd q clean_relative_last[OF assms] show ?thesis
    by (simp add: normalize_def Let_def)
qed

lemma normalize_clean_absolute:
  assumes "clean_absolute p"
  shows "normalize p = p"
proof -
  from assms obtain q where p: "p = CHR ''/'' # q" and q: "clean_relative q"
    by (cases p) (auto simp: clean_absolute_def)
  have ne: "q \<noteq> []" using q by (rule clean_relative_not_Nil)
  have "normalizeString False [] (split_slash p) = split_slash q"
    using q p by (simp add: clean_relative_def normalizeString_clean)
  then have j: "join_slash (normalizeString False [] (split_slash p)) = q"
    by (simp add: join_split)
  have "last p \<noteq> CHR ''/''"
    using clean_relative_last[OF q] ne p by simp
  with p j ne show ?thesis
    by (simp add: normalize_def Let_def)
qed

lemma clean_absolute_join:
  assumes "clean_absolute a" and "clean_relative b"
  shows "clean_absolute (a @ CHR ''/'' # b)"
proof -
  from assms(1) obtain q where a: "a = CHR ''/'' # q" and q: "clean_relative q"
    by (cases a) (auto simp: clean_absolute_def)
  from clean_relative_join[OF q assms(2)] a show ?thesis
    by (simp add: clean_absolute_def)
qed

lemma packages_opencode_clean: "clean_relative ''packages/opencode''"
  by (simp add: clean_relative_def clean_segment_def)

lemma relativePath_clean:
  assumes "clean_relative t"
  shows "relativePath t = (if prefix ''packages/'' t then t else ''packages/opencode/'' @ t)"
    and "clean_relative (relativePath t)"
proof -
  have ne: "t \<noteq> []" using assms by (rule clean_relative_not_Nil)
  have c: "clean_relative (''packages/opencode'' @ CHR ''/'' # t)"
    using clean_relative_join[OF packages_opencode_clean assms] .
  have j: "path_join [''packages'', ''opencode'', t] = ''packages/opencode/'' @ t"
    using normalize_clean_relative[OF c] ne
    by (cases t) (simp_all add: path_join_def)
  have a: "prefix ''packages/'' t \<Longrightarrow> \<not> prefix ''src/'' t"
    by (cases t) auto
  show "relativePath t = (if prefix ''packages/'' t then t else ''packages/opencode/'' @ t)"
    using j a by (auto simp: relativePath_def)
  with c assms show "clean_relative (relativePath t)" by simp
qed

lemma filePath_clean:
  assumes "clean_absolute base" and "clean_relative t"
  shows "filePath base t =
     (if prefix ''packages/'' t then base @ ''/'' @ t else base @ ''/packages/opencode/'' @ t)"
proof -
  have r: "base \<noteq> []" using assms(1) by (auto simp: clean_absolute_def)
  have ne: "relativePath t \<noteq> []"
    using relativePath_clean(2)[OF assms(2)] by (rule clean_relative_not_Nil)
  have c: "clean_absolute (base @ CHR ''/'' # relativePath t)"
    using clean_absolute_join[OF assms(1) relativePath_clean(2)[OF assms(2)]] .
  have "path_join [base, relativePath t] = base @ CHR ''/'' # relativePath t"
    using normalize_clean_absolute[OF c] r ne
    by (cases base; cases "relativePath t") (simp_all add: path_join_def)
  then show ?thesis
    by (simp add: filePath_def relativePath_clean(1)[OF assms(2)])
qed

section \<open>The batch applier: what the console does not decide\<close>

lemma process_file_outcome:
  assumes "outcome st = outcome st'"
  shows "map_sum (\<lambda>e. e) outcome (process_file P od td f st)
       = map_sum (\<lambda>e. e) outcome (process_file P od td f st')"
  using assms
  by (auto simp: process_file_def outcome_def split: sum.splits option.splits)

lemma process_file_console:
  "process_file P od td f st = Inr st' \<Longrightarrow> \<exists>ls. console st' = console st @ ls"
  by (auto simp: process_file_def split: sum.splits option.splits if_splits)

lemma process_files_outcome:
  assumes "outcome st = outcome st'"
  shows "map_sum (\<lambda>e. e) outcome (process_files P od td fl st)
       = map_sum (\<lambda>e. e) outcome (process_files P od td fl st')"
  using assms
proof (induction fl arbitrary: st st')
  case Nil
  then show ?case by simp
next
  case (Cons f fl)
  from process_file_outcome[OF Cons.prems, of P od td f]
  show ?case
    by (cases "process_file P od td f st"; cases "process_file P od td f st'")
       (auto intro: Cons.IH)
qed

lemma process_files_console:
  "process_files P od td fl st = Inr st' \<Longrightarrow> \<exists>ls. console st' = console st @ ls"
proof (induction fl arbitrary: st)
  case Nil
  then show ?case by simp
next
  case (Cons f fl)
  then obtain st1 where 1: "process_file P od td f st = Inr st1"
    and 2: "process_files P od td fl st1 = Inr st'"
    by (auto split: sum.splits)
  from process_file_console[OF 1] Cons.IH[OF 2] show ?case by auto
qed

lemma processModule_outcome:
  assumes "outcome st = outcome st'"
  shows "map_sum (\<lambda>e. e) outcome (processModule P od td cat fl st)
       = map_sum (\<lambda>e. e) outcome (processModule P od td cat fl st')"
proof -
  have "outcome (st\<lparr>console := console st @ [Category cat]\<rparr>)
      = outcome (st'\<lparr>console := console st' @ [Category cat]\<rparr>)"
    using assms by (simp add: outcome_def)
  from process_files_outcome[OF this, of P od td fl]
  show ?thesis
    by (auto simp: processModule_def outcome_def split: sum.splits)
qed

lemma processModule_console:
  "processModule P od td cat fl st = Inr st' \<Longrightarrow> \<exists>ls. console st' = console st @ ls"
  by (auto simp: processModule_def split: sum.splits dest!: process_files_console)

lemma process_category_outcome:
  assumes "map_sum (\<lambda>e. e) outcome r = map_sum (\<lambda>e. e) outcome r'"
  shows "map_sum (\<lambda>e. e) outcome (process_category P od td cat fl r)
       = map_sum (\<lambda>e. e) outcome (process_category P od td cat fl r')"
proof (cases r)
  case (Inl e)
  with assms show ?thesis by (cases r') (simp_all add: process_category_def)
next
  case (Inr st)
  with assms obtain st' where r': "r' = Inr st'" and eq: "outcome st = outcome st'"
    by (cases r') simp_all
  show ?thesis
  proof (cases fl)
    case None
    with Inr r' eq show ?thesis by (simp add: process_category_def)
  next
    case (Some l)
    with Inr r' processModule_outcome[OF eq, of P od td cat l] show ?thesis
      by (simp add: process_category_def)
  qed
qed

lemma process_category_console:
  "process_category P od td cat fl r = Inr st' \<Longrightarrow>
     \<exists>st ls. r = Inr st \<and> console st' = console st @ ls"
  by (cases r; cases fl) (auto simp: process_category_def dest: processModule_console)

lemma main_outcome:
  "map_sum (\<lambda>e. e) outcome (main P disk od td v mc)
     = map_sum (\<lambda>e. e) outcome (main P disk od td v' mc)"
proof -
  define init where "init w =
       (Inr \<lparr>stats = \<lparr>filesProcessed = 0, filesSkipped = 0, totalReplacements = 0,
                       errors = []\<rparr>,
             fsys = disk,
             console = version_lines w (version mc) @ [Applying_translations]\<rparr>
          :: error + run)" for w
  define chain where "chain w =
       process_category P od td ''common'' (common (modules mc))
       (process_category P od td ''routes'' (routes (modules mc))
       (process_category P od td ''components'' (components (modules mc))
       (process_category P od td ''dialogs'' (dialogs (modules mc))
       (process_category P od td ''root'' (root (modules mc)) (init w)))))" for w
  have "map_sum (\<lambda>e. e) outcome (init v) = map_sum (\<lambda>e. e) outcome (init v')"
    by (simp add: init_def outcome_def)
  then have c: "map_sum (\<lambda>e. e) outcome (chain v) = map_sum (\<lambda>e. e) outcome (chain v')"
    unfolding chain_def by (intro process_category_outcome)
  have m: "main P disk od td w mc =
      (case chain w of Inl e \<Rightarrow> Inl e
       | Inr st \<Rightarrow> Inr (st\<lparr>console := console st @ summary_lines (stats st)\<rparr>))" for w
    by (simp add: main_def chain_def init_def)
  from c show ?thesis
    unfolding m by (cases "chain v"; cases "chain v'") (auto simp: outcome_def)
qed

lemma main_console:
  assumes "main P disk od td v mc = Inr st"
  shows "\<exists>ls. console st = version_lines v (version mc) @ Applying_translations # ls"
proof -
  from assms obtain s5 where
    5: "process_category P od td ''common'' (common (modules mc))
       (process_category P od td ''routes'' (routes (modules mc))
       (process_category P od td ''components'' (components (modules mc))
       (process_category P od td ''dialogs'' (dialogs (modules mc))
       (process_category P od td ''root'' (root (modules mc))
       (Inr \<lparr>stats = \<lparr>filesProcessed = 0, filesSkipped = 0, totalReplacements = 0,
                       errors = []\<rparr>,
             fsys = disk,
             console = version_lines v (version mc) @ [Applying_translations]\<rparr>))))) = Inr s5"
    and st: "st = s5\<lparr>console := console s5 @ summary_lines (stats s5)\<rparr>"
    by (auto simp: main_def split: sum.splits)
  from process_category_console[OF 5] obtain s4 l5 where
    4: "process_category P od td ''routes'' (routes (modules mc))
       (process_category P od td ''components'' (components (modules mc))
       (process_category P od td ''dialogs'' (dialogs (modules mc))
       (process_category P od td ''root'' (root (modules mc))
       (Inr \<lparr>stats = \<lparr>filesProcessed = 0, filesSkipped = 0, totalReplacements = 0,
                       errors = []\<rparr>,
             fsys = disk,
             console = version_lines v (version mc) @ [Applying_translations]\<rparr>)))) = Inr s4"
    and c5: "console s5 = console s4 @ l5" by blast
  from process_category_console[OF 4] obtain s3 l4 where
    3: "process_category P od td ''components'' (components (modules mc))
       (process_category P od td ''dialogs'' (dialogs (modules mc))
       (process_category P od td ''root'' (root (modules mc))
       (Inr \<lparr>stats = \<lparr>filesProcessed = 0, filesSkipped = 0, totalReplacements = 0,
                       errors = []\<rparr>,
             fsys = disk,
             console = version_lines v (version mc) @ [Applying_translations]\<rparr>))) = Inr s3"
    and c4: "console s4 = console s3 @ l4" by blast
  from process_category_console[OF 3] obtain s2 l3 where
    2: "process_category P od td ''dialogs'' (dialogs (modules mc))
       (process_category P od td ''root'' (root (modules mc))
       (Inr \<lparr>stats = \<lparr>filesProcessed = 0, filesSkipped = 0, totalReplacements = 0,
                       errors = []\<rparr>,
             fsys = disk,
             console = version_lines v (version mc) @ [Applying_translations]\<rparr>)) = Inr s2"
    and c3: "console s3 = console s2 @ l3" by blast
  from process_category_console[OF 2] obtain s1 l2 where
    1: "process_category P od td ''root'' (root (modules mc))
       (Inr \<lparr>stats = \<lparr>filesProcessed = 0, filesSkipped = 0, totalReplacements = 0,
                       errors = []\<rparr>,
             fsys = disk,
             console = version_lines v (version mc) @ [Applying_translations]\<rparr>) = Inr s1"
    and c2: "console s2 = console s1 @ l2" by blast
  from process_category_console[OF 1] obtain l1 where
    c1: "console s1 = (version_lines v (version mc) @ [Applying_translations]) @ l1" by auto
  from st c5 c4 c3 c2 c1 show ?thesis by simp
qed

lemma accounting_paths:
  "path_join [''/tr'', ''root/a.json''] = ''/tr/root/a.json''"
  "path_join [''/tr'', ''root/b.json''] = ''/tr/root/b.json''"
  "path_join [''/tr'', ''dialogs/c.json''] = ''/tr/dialogs/c.json''"
  "filePath ''/oc'' ''src/a.ts'' = ''/oc/packages/opencode/src/a.ts''"
  "filePath ''/oc'' ''src/c.ts'' = ''/oc/packages/opencode/src/c.ts''"
  by (simp_all add: filePath_def relativePath_def path_join_def normalize_def)

lemma accounting_loops:
  "replace_loop [(''foo'', ''bar'')] (''foo foo foo'', 0) = Inr (''bar bar bar'', 3)"
  "replace_loop [(''foo'', ''bar'')] (''hello'', 0) = Inr (''hello'', 0)"
  by (simp_all add: run_defs)

lemma accounting_run:
  "map_sum (\<lambda>e. e) stats (main accounting_docs accounting_disk ''/oc'' ''/tr'' v accounting_manifest)
     = Inr \<lparr>filesProcessed = 2, filesSkipped = 1, totalReplacements = 3, errors = []\<rparr>"
  by (simp add: main_def process_category_def processModule_def process_file_def
        loadTranslationFile_def applyTranslation_def accounting_docs_def accounting_disk_def
        accounting_manifest_def accounting_paths accounting_loops existsSync_def
        readFileSync_def writeFileSync_def js_or_def applied_def skip_file_def count_file_def
        touch_file_def
        del: replace_loop.simps)

section \<open>Occurrences after a replacement\<close>














lemma second_paths:
  "filePath ''/oc'' ''src/x.ts'' = ''/oc/packages/opencode/src/x.ts''"
  by (simp add: filePath_def relativePath_def path_join_def normalize_def)

section \<open>The first match of a scan\<close>

lemma prefix_shorter:
  assumes "prefix x (u @ v)" and "length x \<le> length u"
  shows "prefix x u"
proof -
  from assms(1) have "prefix x u \<or> (\<exists>us. x = u @ us \<and> prefix us v)"
    by (simp add: prefix_append)
  then show ?thesis
  proof
    assume "prefix x u"
    then show ?thesis .
  next
    assume "\<exists>us. x = u @ us \<and> prefix us v"
    then obtain us where x: "x = u @ us" by blast
    with assms(2) have "us = []" by simp
    with x show ?thesis by simp
  qed
qed

lemma no_match_before_first:
  assumes "original \<noteq> []" and "\<not> sublist original ((c # a) @ butlast original)"
  shows "\<not> prefix original (c # a @ original @ b)"
    and "\<not> sublist original (a @ butlast original)"
proof -
  have split: "c # a @ original @ b = ((c # a) @ butlast original) @ (last original # b)"
    using assms(1) by simp
  show "\<not> prefix original (c # a @ original @ b)"
  proof
    assume "prefix original (c # a @ original @ b)"
    then have "prefix original (((c # a) @ butlast original) @ (last original # b))"
      by (simp only: split)
    moreover have "length original \<le> length ((c # a) @ butlast original)"
      by simp
    ultimately have "prefix original ((c # a) @ butlast original)"
      by (rule prefix_shorter)
    with assms(2) show False by blast
  qed
  from assms(2) show "\<not> sublist original (a @ butlast original)"
    by (simp add: sublist_Cons_right)
qed

lemma replace_from_first_match:
  assumes "original \<noteq> []" and "\<not> sublist original (a @ butlast original)"
  shows "replace_from (map Chr original) t pre (a @ original @ b) =
     a @ GetSubstitution original (pre @ a) b t
       @ replace_from (map Chr original) t (pre @ a @ original) b"
  using assms(2)
proof (induction a arbitrary: pre)
  case Nil
  from assms(1) obtain c cs where o: "original = c # cs" by (cases original) auto
  have "match_here (map Chr original) (original @ b)"
    by (simp add: match_here_literal)
  then show ?case
    using o by (simp del: match_here.simps)
next
  case (Cons c a)
  from no_match_before_first[OF assms(1) Cons.prems]
  have no: "\<not> prefix original (c # a @ original @ b)"
    and rest: "\<not> sublist original (a @ butlast original)" .
  have "\<not> match_here (map Chr original) (c # a @ original @ b)"
    unfolding match_here_literal by (rule no)
  then have "replace_from (map Chr original) t pre ((c # a) @ original @ b) =
      c # replace_from (map Chr original) t (pre @ [c]) (a @ original @ b)"
    by (simp del: match_here.simps)
  with Cons.IH[OF rest, of "pre @ [c]"] show ?case by simp
qed

lemma count_literal_first_match:
  assumes "original \<noteq> []" and "\<not> sublist original (a @ butlast original)"
  shows "count_literal original (a @ original @ b) = Suc (count_literal original b)"
  using assms(2)
proof (induction a)
  case Nil
  from assms(1) obtain c cs where o: "original = c # cs" by (cases original) auto
  then show ?case by simp
next
  case (Cons c a)
  from no_match_before_first[OF assms(1) Cons.prems]
  have no: "\<not> prefix original (c # a @ original @ b)"
    and rest: "\<not> sublist original (a @ butlast original)" .
  from no have "count_literal original ((c # a) @ original @ b)
      = count_literal original (a @ original @ b)"
    by simp
  with Cons.IH[OF rest] show ?case by simp
qed

section \<open>The substitution engine\<close>

text \<open>
  Claim C1. The loop over the replacement pairs threads one content through all of
  them: running the pairs \<open>ps\<close> and then the pairs \<open>qs\<close> is running \<open>qs\<close> on what \<open>ps\<close>
  left. For the pairs \<open>("A","B")\<close>, \<open>("B","C")\<close> on the content \<open>A\<close>, the first pair
  leaves \<open>B\<close>, the second pair alone would find nothing in \<open>A\<close>, and the loop ends with
  \<open>C\<close> after two replacements, not with \<open>B\<close>; \<open>applyTranslation\<close> writes \<open>C\<close> to the
  file.
\<close>

theorem chained_replacements:
  "replace_loop (ps @ qs) st =
     (case replace_loop ps st of Inl e \<Rightarrow> Inl e | Inr st' \<Rightarrow> replace_loop qs st')
   \<and> replace_pair (''A'', ''B'') (''A'', 0) = Inr (''B'', 1)
   \<and> replace_pair (''B'', ''C'') (''A'', 0) = Inr (''A'', 0)
   \<and> replace_loop [(''A'', ''B''), (''B'', ''C'')] (''A'', 0) = Inr (''C'', 2)
   \<and> applyTranslation
        \<lparr>nodes = [''/oc/packages/opencode/src/x.ts'' \<mapsto> File ''A''], writes = []\<rparr> ''/oc''
        \<lparr>file = Some ''src/x.ts'', description = None,
          replacements = [(''A'', ''B''), (''B'', ''C'')]\<rparr> None
       = Inr (\<lparr>res_file = ''src/x.ts'', res_replacements = 2, res_skipped = False,
                res_reason = None\<rparr>,
              \<lparr>nodes = [''/oc/packages/opencode/src/x.ts'' \<mapsto> File ''C''],
                writes = [(''/oc/packages/opencode/src/x.ts'', ''C'')]\<rparr>)"
proof -
  have 1: "replace_pair (''A'', ''B'') (''A'', 0) = Inr (''B'', 1)"
    by (simp add: run_defs)
  have 2: "replace_pair (''B'', ''C'') (''A'', 0) = Inr (''A'', 0)"
    by (simp add: run_defs)
  have 3: "replace_loop [(''A'', ''B''), (''B'', ''C'')] (''A'', 0) = Inr (''C'', 2)"
    by (simp add: run_defs)
  have 4: "applyTranslation
        \<lparr>nodes = [''/oc/packages/opencode/src/x.ts'' \<mapsto> File ''A''], writes = []\<rparr> ''/oc''
        \<lparr>file = Some ''src/x.ts'', description = None,
          replacements = [(''A'', ''B''), (''B'', ''C'')]\<rparr> None
       = Inr (\<lparr>res_file = ''src/x.ts'', res_replacements = 2, res_skipped = False,
                res_reason = None\<rparr>,
              \<lparr>nodes = [''/oc/packages/opencode/src/x.ts'' \<mapsto> File ''C''],
                writes = [(''/oc/packages/opencode/src/x.ts'', ''C'')]\<rparr>)"
    using applyTranslation_applied[where rel = None and t = "''src/x.ts''"
        and config = "\<lparr>file = Some ''src/x.ts'', description = None,
          replacements = [(''A'', ''B''), (''B'', ''C'')]\<rparr>"
        and disk = "\<lparr>nodes = [''/oc/packages/opencode/src/x.ts'' \<mapsto> File ''A''],
          writes = []\<rparr>"
        and od = "''/oc''" and ?c0.0 = "''A''" and c = "''C''" and n = 2]
    by (simp add: js_or_def second_paths 3 applied_def del: replace_loop.simps)
  from 1 2 3 4 show ?thesis
    using replace_loop_append by blast
qed

text \<open>
  Claim C8. A pair whose original equals its translated value leaves the content and
  the count as they are, whatever the content; the loop and \<open>applyTranslation\<close> give
  the same result with the pair as without it.
\<close>

theorem equal_pair_noop:
  "replace_pair (x, x) (content, n) = Inr (content, n)
   \<and> replace_loop (ps @ (x, x) # qs) st = replace_loop (ps @ qs) st
   \<and> applyTranslation disk opencodeDir
        \<lparr>file = f, description = d, replacements = ps @ (x, x) # qs\<rparr> rel
       = applyTranslation disk opencodeDir
        \<lparr>file = f, description = d, replacements = ps @ qs\<rparr> rel"
proof -
  have loop: "replace_loop (ps @ (x, x) # qs) st' = replace_loop (ps @ qs) st'" for st'
    by (simp add: replace_loop_append replace_pair_equal split: sum.splits)
  show ?thesis
    by (simp add: loop applyTranslation_def replace_pair_equal
          cong: option.case_cong sum.case_cong if_cong)
qed

text \<open>
  Claim C2. The pattern built from an original fragment is the fragment itself, one
  literal code unit after the other, whatever characters it holds: the pattern matches
  at a place exactly when the fragment stands there, every matched text is the fragment,
  and a content in which the fragment does not occur is returned unchanged with nothing
  counted. So the original \<open>a.b\<close> leaves \<open>aXb\<close> alone, and the original \<open>API key\<close>
  leaves \<open>APIXkey\<close> alone, although the unescaped pattern \<open>a.b\<close> does match \<open>aXb\<close>.
\<close>

theorem literal_match_only:
  "RegExp (escapeRegex original) = Inr (map Chr original)
   \<and> match_here (map Chr original) s = prefix original s
   \<and> js_match (map Chr original) content =
       (if sublist original content
        then Some (replicate (count_literal original content) original) else None)
   \<and> replace_pair (original, translated) (content, n) =
       Inr (if original \<noteq> translated \<and> sublist original content
            then (js_replace (map Chr original) translated content,
                  n + count_literal original content)
            else (content, n))
   \<and> replace_pair (''a.b'', ''Z'') (''aXb'', 0) = Inr (''aXb'', 0)
   \<and> replace_pair (''API key'', ''Z'') (''APIXkey'', 0) = Inr (''APIXkey'', 0)
   \<and> RegExp ''a.b'' = Inr [Chr CHR ''a'', Dot, Chr CHR ''b'']
   \<and> match_here [Chr CHR ''a'', Dot, Chr CHR ''b''] ''aXb''"
proof -
  have pair: "replace_pair (original, translated) (content, n) =
       Inr (if original \<noteq> translated \<and> sublist original content
            then (js_replace (map Chr original) translated content,
                  n + count_literal original content)
            else (content, n))"
    using count_literal_zero[of original content]
    by (simp add: replace_pair_literal js_replace_no_occurrence del: replace_pair.simps)
  have ex1: "replace_pair (''a.b'', ''Z'') (''aXb'', 0) = Inr (''aXb'', 0)"
    by (simp add: run_defs)
  have ex2: "replace_pair (''API key'', ''Z'') (''APIXkey'', 0) = Inr (''APIXkey'', 0)"
    by (simp add: run_defs)
  have raw: "RegExp ''a.b'' = Inr [Chr CHR ''a'', Dot, Chr CHR ''b'']"
    by (simp add: run_defs)
  have wild: "match_here [Chr CHR ''a'', Dot, Chr CHR ''b''] ''aXb''"
    by simp
  show ?thesis
    using pair ex1 ex2 raw wild
    by (simp only: RegExp_escapeRegex match_here_literal js_match_literal simp_thms)
qed

text \<open>
  Claim C10, as amended. A translated value without a dollar sign, and more generally
  every plain template, replaces each occurrence of the original by itself, literally.
  The translated value is not escaped and is read as a replacement template, whatever
  follows in it: \<open>$$\<close> gives one dollar sign, \<open>$&\<close> the matched text, \<open>$`\<close> the text
  before the match and \<open>$'\<close> the text after it; a dollar sign followed by any other
  code unit, and a dollar sign at the end, is copied as it stands, since the pattern has
  no capture group that \<open>$1\<close> could name. In the engine, at the first occurrence of the
  original in a content \<open>a @ original @ b\<close> the matched text is the original, the text
  before the match is \<open>a\<close> and the text after it is \<open>b\<close>; for a later match the text
  before it is the content as it was, not as replaced so far.
\<close>

theorem translated_template:
  "(CHR ''$'' \<notin> set translated \<longrightarrow>
      replace_pair (original, translated) (content, n) =
        Inr (if original = translated then (content, n)
             else (replace_literal original translated content,
                   n + count_literal original content)))
   \<and> (plain_template translated \<longrightarrow>
      replace_pair (original, translated) (content, n) =
        Inr (if original = translated then (content, n)
             else (replace_literal original translated content,
                   n + count_literal original content)))
   \<and> (original \<noteq> [] \<and> original \<noteq> translated
        \<and> \<not> sublist original (a @ butlast original) \<longrightarrow>
      replace_pair (original, translated) (a @ original @ b, n) =
        Inr (a @ GetSubstitution original a b translated
               @ replace_from (map Chr original) translated (a @ original) b,
             n + Suc (count_literal original b)))
   \<and> (original \<noteq> [] \<and> \<not> sublist original (a @ butlast original) \<longrightarrow>
      replace_from (map Chr original) translated pre (a @ original @ b) =
        a @ GetSubstitution original (pre @ a) b translated
          @ replace_from (map Chr original) translated (pre @ a @ original) b)
   \<and> GetSubstitution m pre post (CHR ''$'' # CHR ''$'' # r)
       = CHR ''$'' # GetSubstitution m pre post r
   \<and> GetSubstitution m pre post (CHR ''$'' # CHR ''&'' # r) = m @ GetSubstitution m pre post r
   \<and> GetSubstitution m pre post (CHR ''$'' # CHR 0x60 # r) = pre @ GetSubstitution m pre post r
   \<and> GetSubstitution m pre post (CHR ''$'' # CHR 0x27 # r) = post @ GetSubstitution m pre post r
   \<and> (d \<noteq> CHR ''$'' \<and> d \<noteq> CHR ''&'' \<and> d \<noteq> CHR 0x60 \<and> d \<noteq> CHR 0x27 \<longrightarrow>
        GetSubstitution m pre post (CHR ''$'' # d # r)
          = CHR ''$'' # GetSubstitution m pre post (d # r))
   \<and> (c \<noteq> CHR ''$'' \<longrightarrow>
        GetSubstitution m pre post (c # r) = c # GetSubstitution m pre post r)
   \<and> GetSubstitution m pre post ''$'' = ''$''
   \<and> (CHR ''$'' \<notin> set translated \<longrightarrow> plain_template translated)
   \<and> plain_template (CHR ''$'' # CHR ''1'' # r) = plain_template (CHR ''1'' # r)
   \<and> GetSubstitution m pre post ''$$'' = ''$''
   \<and> GetSubstitution m pre post ''$&'' = m
   \<and> GetSubstitution m pre post [CHR ''$'', CHR 0x60] = pre
   \<and> GetSubstitution m pre post [CHR ''$'', CHR 0x27] = post
   \<and> GetSubstitution m pre post ''$1'' = ''$1''
   \<and> replace_pair (''a'', ''$&'') (''xay'', 0) = Inr (''xay'', 1)
   \<and> replace_pair (''a'', ''$$'') (''xay'', 0) = Inr (''x$y'', 1)"
proof -
  have plain: "plain_template translated \<longrightarrow>
      replace_pair (original, translated) (content, n) =
        Inr (if original = translated then (content, n)
             else (replace_literal original translated content,
                   n + count_literal original content))"
    by (simp add: replace_pair_literal js_replace_def replace_from_plain
          del: replace_pair.simps)
  have nodollar: "CHR ''$'' \<notin> set translated \<longrightarrow> plain_template translated"
    by (simp add: plain_template_no_dollar)
  have lit: "CHR ''$'' \<notin> set translated \<longrightarrow>
      replace_pair (original, translated) (content, n) =
        Inr (if original = translated then (content, n)
             else (replace_literal original translated content,
                   n + count_literal original content))"
    using plain nodollar by blast
  have from_first: "original \<noteq> [] \<and> \<not> sublist original (a @ butlast original) \<longrightarrow>
      replace_from (map Chr original) translated pre (a @ original @ b) =
        a @ GetSubstitution original (pre @ a) b translated
          @ replace_from (map Chr original) translated (pre @ a @ original) b"
    using replace_from_first_match by blast
  have pair_first: "original \<noteq> [] \<and> original \<noteq> translated
        \<and> \<not> sublist original (a @ butlast original) \<longrightarrow>
      replace_pair (original, translated) (a @ original @ b, n) =
        Inr (a @ GetSubstitution original a b translated
               @ replace_from (map Chr original) translated (a @ original) b,
             n + Suc (count_literal original b))"
    using replace_from_first_match[of original a translated "[]" b]
      count_literal_first_match[of original a b]
    by (simp add: replace_pair_literal js_replace_def del: replace_pair.simps)
  have copy: "c \<noteq> CHR ''$'' \<longrightarrow>
        GetSubstitution m pre post (c # r) = c # GetSubstitution m pre post r"
    by (cases r) simp_all
  have ex1: "replace_pair (''a'', ''$&'') (''xay'', 0) = Inr (''xay'', 1)"
    by (simp add: run_defs)
  have ex2: "replace_pair (''a'', ''$$'') (''xay'', 0) = Inr (''x$y'', 1)"
    by (simp add: run_defs)
  show ?thesis
    by (intro conjI lit plain pair_first from_first copy nodollar ex1 ex2) simp_all
qed

theorem translated_template_witness:
  "CHR ''$'' \<notin> set ''Z''
   \<and> replace_pair (''a.b'', ''Z'') (''a.b aXb a.b'', 0) = Inr (''Z aXb Z'', 2)
   \<and> plain_template ''Z''
   \<and> plain_template ''US$ 5 ($2)''
   \<and> replace_pair (''a'', ''US$ 5 ($2)'') (''xay'', 0) = Inr (''xUS$ 5 ($2)y'', 1)
   \<and> \<not> sublist ''a'' (''x'' @ butlast ''a'')
   \<and> replace_pair (''a'', ''[$'' @ [CHR 0x60] @ ''|$'' @ [CHR 0x27] @ '']'') (''xayaz'', 0)
       = Inr (''x[x|yaz]y[xay|z]z'', 2)
   \<and> replace_from [Chr CHR ''a''] (''[$'' @ [CHR 0x60] @ '']'') ''123'' ''xay''
       = ''x[123x]y''
   \<and> GetSubstitution ''m'' ''p'' ''q'' ''$1$&'' = ''$1m''
   \<and> GetSubstitution ''m'' ''p'' ''q'' ''a$&'' = ''am''"
proof -
  let ?t = "''[$'' @ [CHR 0x60] @ ''|$'' @ [CHR 0x27] @ '']''"
  have h1: "CHR ''$'' \<notin> set ''Z''" by simp
  have r: "replace_literal ''a.b'' ''Z'' ''a.b aXb a.b'' = ''Z aXb Z''" by simp
  have c: "count_literal ''a.b'' ''a.b aXb a.b'' = 2" by simp
  from translated_template[of "''Z''" "''a.b''" "''a.b aXb a.b''" 0] h1 r c
  have w1: "replace_pair (''a.b'', ''Z'') (''a.b aXb a.b'', 0) = Inr (''Z aXb Z'', 2)"
    by simp
  from translated_template[of "''Z''"] h1
  have w2: "plain_template ''Z''" by blast
  have h3: "plain_template ''US$ 5 ($2)''" by simp
  have r3: "replace_literal ''a'' ''US$ 5 ($2)'' ''xay'' = ''xUS$ 5 ($2)y''" by simp
  have c3: "count_literal ''a'' ''xay'' = 1" by simp
  from translated_template[of "''US$ 5 ($2)''" "''a''" "''xay''" 0] h3
  have "replace_pair (''a'', ''US$ 5 ($2)'') (''xay'', 0) =
      Inr (if ''a'' = ''US$ 5 ($2)'' then (''xay'', 0)
           else (replace_literal ''a'' ''US$ 5 ($2)'' ''xay'', 0 + count_literal ''a'' ''xay''))"
    by blast
  with r3 c3 have w3: "replace_pair (''a'', ''US$ 5 ($2)'') (''xay'', 0)
      = Inr (''xUS$ 5 ($2)y'', 1)"
    by simp
  have h4: "''a'' \<noteq> [] \<and> ''a'' \<noteq> ?t \<and> \<not> sublist ''a'' (''x'' @ butlast ''a'')"
    by (simp add: sublist_Cons_right)
  from translated_template[where original = "''a''" and translated = ?t and a = "''x''"
      and b = "''yaz''" and n = 0] h4
  have "replace_pair (''a'', ?t) (''x'' @ ''a'' @ ''yaz'', 0) =
      Inr (''x'' @ GetSubstitution ''a'' ''x'' ''yaz'' ?t
             @ replace_from (map Chr ''a'') ?t (''x'' @ ''a'') ''yaz'',
           0 + Suc (count_literal ''a'' ''yaz''))"
    by blast
  then have w4: "replace_pair (''a'', ?t) (''xayaz'', 0) = Inr (''x[x|yaz]y[xay|z]z'', 2)"
    by simp
  have h5: "''a'' \<noteq> [] \<and> \<not> sublist ''a'' (''x'' @ butlast ''a'')"
    by (simp add: sublist_Cons_right)
  from translated_template[where original = "''a''" and a = "''x''" and b = "''y''"
      and translated = "''[$'' @ [CHR 0x60] @ '']''" and pre = "''123''"] h5
  have "replace_from (map Chr ''a'') (''[$'' @ [CHR 0x60] @ '']'') ''123'' (''x'' @ ''a'' @ ''y'')
      = ''x'' @ GetSubstitution ''a'' (''123'' @ ''x'') ''y'' (''[$'' @ [CHR 0x60] @ '']'')
          @ replace_from (map Chr ''a'') (''[$'' @ [CHR 0x60] @ '']'') (''123'' @ ''x'' @ ''a'') ''y''"
    by blast
  then have w5: "replace_from [Chr CHR ''a''] (''[$'' @ [CHR 0x60] @ '']'') ''123'' ''xay''
       = ''x[123x]y''"
    by simp
  have h6: "CHR ''1'' \<noteq> CHR ''$'' \<and> CHR ''1'' \<noteq> CHR ''&'' \<and> CHR ''1'' \<noteq> CHR 0x60
      \<and> CHR ''1'' \<noteq> CHR 0x27"
    by simp
  from translated_template[where d = "CHR ''1''" and r = "''$&''" and m = "''m''"
      and pre = "''p''" and post = "''q''"] h6
  have "GetSubstitution ''m'' ''p'' ''q'' (CHR ''$'' # CHR ''1'' # ''$&'')
      = CHR ''$'' # GetSubstitution ''m'' ''p'' ''q'' (CHR ''1'' # ''$&'')"
    by blast
  then have w6: "GetSubstitution ''m'' ''p'' ''q'' ''$1$&'' = ''$1m''" by simp
  have h7: "CHR ''a'' \<noteq> CHR ''$''" by simp
  from translated_template[where c = "CHR ''a''" and r = "''$&''" and m = "''m''"
      and pre = "''p''" and post = "''q''"] h7
  have "GetSubstitution ''m'' ''p'' ''q'' (CHR ''a'' # ''$&'')
      = CHR ''a'' # GetSubstitution ''m'' ''p'' ''q'' ''$&''"
    by blast
  then have w7: "GetSubstitution ''m'' ''p'' ''q'' ''a$&'' = ''am''" by simp
  from h1 w1 w2 h3 w3 h4 w4 w5 w6 w7 show ?thesis by blast
qed

text \<open>Against C10 as stated: with the translated value \<open>$1\<close> the output holds the
  literal text \<open>$1\<close>, as literal replacement would give.\<close>

theorem dollar_digit_counterexample:
  "replace_pair (''a'', ''$1'') (''xay'', 0) = Inr (''x$1y'', 1)
   \<and> replace_literal ''a'' ''$1'' ''xay'' = ''x$1y''"
  by (simp add: run_defs)

section \<open>applyTranslation: skips, the write and the path\<close>

text \<open>
  Claim C3. A skipped result comes with zero replacements and an untouched file system
  (no write is journalled), and there are exactly two of them: both the override path
  and the document's \<open>file\<close> are absent or empty, which gives the reason
  \<open>No file specified\<close> and the file name \<open>unknown\<close>; or a target path is there and the
  resolved path does not exist, which gives the reason \<open>File not found\<close>. Each of the
  two conditions leads to its result.
\<close>

theorem skip_outcomes:
  "(applyTranslation disk opencodeDir config rel = Inr (result, disk') \<and> res_skipped result
      \<longrightarrow> res_replacements result = 0 \<and> disk' = disk
        \<and> ((rel = None \<or> rel = Some []) \<and> (file config = None \<or> file config = Some [])
             \<and> result = \<lparr>res_file = ''unknown'', res_replacements = 0, res_skipped = True,
                          res_reason = Some ''No file specified''\<rparr>
           \<or> (\<exists>t. js_or rel (file config) = Some t \<and> t \<noteq> []
                 \<and> \<not> existsSync disk (filePath opencodeDir t)
                 \<and> result = \<lparr>res_file = t, res_replacements = 0, res_skipped = True,
                              res_reason = Some ''File not found''\<rparr>)))
   \<and> ((rel = None \<or> rel = Some []) \<and> (file config = None \<or> file config = Some [])
      \<longrightarrow> applyTranslation disk opencodeDir config rel
            = Inr (\<lparr>res_file = ''unknown'', res_replacements = 0, res_skipped = True,
                    res_reason = Some ''No file specified''\<rparr>, disk))
   \<and> (js_or rel (file config) = Some t \<and> t \<noteq> [] \<and> \<not> existsSync disk (filePath opencodeDir t)
      \<longrightarrow> applyTranslation disk opencodeDir config rel
            = Inr (\<lparr>res_file = t, res_replacements = 0, res_skipped = True,
                    res_reason = Some ''File not found''\<rparr>, disk))"
proof (intro conjI impI)
  assume a: "applyTranslation disk opencodeDir config rel = Inr (result, disk') \<and> res_skipped result"
  from applyTranslation_result[of disk opencodeDir config rel result disk'] a
  have c: "((rel = None \<or> rel = Some []) \<and> (file config = None \<or> file config = Some [])
              \<and> result = no_file_specified \<and> disk' = disk)
       \<or> (\<exists>t. js_or rel (file config) = Some t \<and> t \<noteq> []
             \<and> \<not> existsSync disk (filePath opencodeDir t)
             \<and> result = file_not_found t \<and> disk' = disk)"
    by (auto simp: applied_def js_or_falsy)
  from c show "res_replacements result = 0"
    by (auto simp: no_file_specified_def file_not_found_def)
  from c show "disk' = disk" by auto
  from c show "(rel = None \<or> rel = Some []) \<and> (file config = None \<or> file config = Some [])
             \<and> result = \<lparr>res_file = ''unknown'', res_replacements = 0, res_skipped = True,
                          res_reason = Some ''No file specified''\<rparr>
           \<or> (\<exists>t. js_or rel (file config) = Some t \<and> t \<noteq> []
                 \<and> \<not> existsSync disk (filePath opencodeDir t)
                 \<and> result = \<lparr>res_file = t, res_replacements = 0, res_skipped = True,
                              res_reason = Some ''File not found''\<rparr>)"
    by (auto simp: no_file_specified_def file_not_found_def)
next
  assume "(rel = None \<or> rel = Some []) \<and> (file config = None \<or> file config = Some [])"
  then have "js_or rel (file config) = None \<or> js_or rel (file config) = Some []"
    by (simp only: js_or_falsy)
  then show "applyTranslation disk opencodeDir config rel
            = Inr (\<lparr>res_file = ''unknown'', res_replacements = 0, res_skipped = True,
                    res_reason = Some ''No file specified''\<rparr>, disk)"
    by (auto simp: applyTranslation_def no_file_specified_def)
next
  assume "js_or rel (file config) = Some t \<and> t \<noteq> [] \<and> \<not> existsSync disk (filePath opencodeDir t)"
  then show "applyTranslation disk opencodeDir config rel
            = Inr (\<lparr>res_file = t, res_replacements = 0, res_skipped = True,
                    res_reason = Some ''File not found''\<rparr>, disk)"
    by (simp add: applyTranslation_def file_not_found_def)
qed

theorem skip_outcomes_witness:
  "applyTranslation \<lparr>nodes = Map.empty, writes = []\<rparr> ''/oc''
       \<lparr>file = None, description = None, replacements = [(''a'', ''b'')]\<rparr> None
     = Inr (\<lparr>res_file = ''unknown'', res_replacements = 0, res_skipped = True,
             res_reason = Some ''No file specified''\<rparr>, \<lparr>nodes = Map.empty, writes = []\<rparr>)
   \<and> applyTranslation \<lparr>nodes = Map.empty, writes = []\<rparr> ''/oc''
       \<lparr>file = Some ''src/x.ts'', description = None, replacements = [(''a'', ''b'')]\<rparr> None
     = Inr (\<lparr>res_file = ''src/x.ts'', res_replacements = 0, res_skipped = True,
             res_reason = Some ''File not found''\<rparr>, \<lparr>nodes = Map.empty, writes = []\<rparr>)
   \<and> res_replacements \<lparr>res_file = ''src/x.ts'', res_replacements = 0, res_skipped = True,
             res_reason = Some ''File not found''\<rparr> = 0"
proof -
  let ?d = "\<lparr>nodes = Map.empty, writes = []\<rparr>"
  let ?c1 = "\<lparr>file = None, description = None, replacements = [(''a'', ''b'')]\<rparr>"
  let ?c2 = "\<lparr>file = Some ''src/x.ts'', description = None, replacements = [(''a'', ''b'')]\<rparr>"
  let ?r2 = "\<lparr>res_file = ''src/x.ts'', res_replacements = 0, res_skipped = True,
             res_reason = Some ''File not found''\<rparr>"
  have h1: "(None = None \<or> None = Some []) \<and> (file ?c1 = None \<or> file ?c1 = Some [])"
    by simp
  have h2: "js_or None (file ?c2) = Some ''src/x.ts'' \<and> ''src/x.ts'' \<noteq> []
      \<and> \<not> existsSync ?d (filePath ''/oc'' ''src/x.ts'')"
    by (simp add: js_or_def existsSync_def)
  have a1: "applyTranslation ?d ''/oc'' ?c1 None
     = Inr (\<lparr>res_file = ''unknown'', res_replacements = 0, res_skipped = True,
             res_reason = Some ''No file specified''\<rparr>, ?d)"
    using skip_outcomes[where rel = None and config = ?c1 and disk = ?d] h1 by blast
  have a2: "applyTranslation ?d ''/oc'' ?c2 None = Inr (?r2, ?d)"
    using skip_outcomes[where rel = None and config = ?c2 and disk = ?d
        and t = "''src/x.ts''" and opencodeDir = "''/oc''"] h2 by blast
  have h3: "applyTranslation ?d ''/oc'' ?c2 None = Inr (?r2, ?d) \<and> res_skipped ?r2"
    using a2 by simp
  have a3: "res_replacements ?r2 = 0"
    using skip_outcomes[where rel = None and config = ?c2 and disk = ?d
        and result = ?r2 and disk' = ?d and opencodeDir = "''/oc''"] h3 by blast
  from a1 a2 a3 show ?thesis by blast
qed

text \<open>
  Claim C6. A call that returns makes at most one write: the journal grows by one entry
  exactly when the reported count is positive, the entry is the resolved path of the
  result's file with the content the loop ended with, and the node at that path is that
  content; when the count is zero the file system, journal included, is the one the call
  started with.
\<close>

theorem write_iff_replaced:
  "applyTranslation disk opencodeDir config rel = Inr (result, disk') \<longrightarrow>
     (0 < res_replacements result) = (writes disk' \<noteq> writes disk)
     \<and> length (writes disk') \<le> Suc (length (writes disk))
     \<and> (if 0 < res_replacements result
         then \<exists>c0 c. readFileSync disk (filePath opencodeDir (res_file result)) = Inr c0
                \<and> replace_loop (replacements config) (c0, 0) = Inr (c, res_replacements result)
                \<and> nodes disk' = (nodes disk)(filePath opencodeDir (res_file result) \<mapsto> File c)
                \<and> writes disk' = writes disk @ [(filePath opencodeDir (res_file result), c)]
         else disk' = disk)"
proof
  assume a: "applyTranslation disk opencodeDir config rel = Inr (result, disk')"
  from applyTranslation_result[OF a]
  consider (nofile) "result = no_file_specified" "disk' = disk"
    | (notfound) t where "result = file_not_found t" "disk' = disk"
    | (applied) t c0 c n where "nodes disk (filePath opencodeDir t) = Some (File c0)"
        "replace_loop (replacements config) (c0, 0) = Inr (c, n)"
        "result = applied t n"
        "disk' = (if n > 0
                   then \<lparr>nodes = (nodes disk)(filePath opencodeDir t \<mapsto> File c),
                         writes = writes disk @ [(filePath opencodeDir t, c)]\<rparr>
                   else disk)"
    by blast
  then show "(0 < res_replacements result) = (writes disk' \<noteq> writes disk)
     \<and> length (writes disk') \<le> Suc (length (writes disk))
     \<and> (if 0 < res_replacements result
         then \<exists>c0 c. readFileSync disk (filePath opencodeDir (res_file result)) = Inr c0
                \<and> replace_loop (replacements config) (c0, 0) = Inr (c, res_replacements result)
                \<and> nodes disk' = (nodes disk)(filePath opencodeDir (res_file result) \<mapsto> File c)
                \<and> writes disk' = writes disk @ [(filePath opencodeDir (res_file result), c)]
         else disk' = disk)"
  proof cases
    case nofile
    then show ?thesis by (simp add: no_file_specified_def)
  next
    case notfound
    then show ?thesis by (simp add: file_not_found_def)
  next
    case applied
    then show ?thesis by (simp add: applied_def readFileSync_def)
  qed
qed

theorem write_iff_replaced_witness:
  "applyTranslation
      \<lparr>nodes = [''/oc/packages/opencode/src/x.ts'' \<mapsto> File ''foo bar foo''], writes = []\<rparr>
      ''/oc'' \<lparr>file = Some ''src/x.ts'', description = None,
               replacements = [(''foo'', ''baz'')]\<rparr> None
    = Inr (\<lparr>res_file = ''src/x.ts'', res_replacements = 2, res_skipped = False,
             res_reason = None\<rparr>,
           \<lparr>nodes = [''/oc/packages/opencode/src/x.ts'' \<mapsto> File ''baz bar baz''],
             writes = [(''/oc/packages/opencode/src/x.ts'', ''baz bar baz'')]\<rparr>)
   \<and> (0 < (2::nat)) = ([(''/oc/packages/opencode/src/x.ts'', ''baz bar baz'')] \<noteq> [])
   \<and> applyTranslation
      \<lparr>nodes = [''/oc/packages/opencode/src/x.ts'' \<mapsto> File ''foo bar foo''], writes = []\<rparr>
      ''/oc'' \<lparr>file = Some ''src/x.ts'', description = None,
               replacements = [(''qux'', ''baz'')]\<rparr> None
    = Inr (\<lparr>res_file = ''src/x.ts'', res_replacements = 0, res_skipped = False,
             res_reason = None\<rparr>,
           \<lparr>nodes = [''/oc/packages/opencode/src/x.ts'' \<mapsto> File ''foo bar foo''],
             writes = []\<rparr>)"
proof -
  let ?p = "''/oc/packages/opencode/src/x.ts''"
  let ?d = "\<lparr>nodes = [?p \<mapsto> File ''foo bar foo''], writes = []\<rparr>"
  let ?d' = "\<lparr>nodes = [?p \<mapsto> File ''baz bar baz''], writes = [(?p, ''baz bar baz'')]\<rparr>"
  let ?c1 = "\<lparr>file = Some ''src/x.ts'', description = None, replacements = [(''foo'', ''baz'')]\<rparr>"
  let ?c2 = "\<lparr>file = Some ''src/x.ts'', description = None, replacements = [(''qux'', ''baz'')]\<rparr>"
  let ?r1 = "\<lparr>res_file = ''src/x.ts'', res_replacements = 2, res_skipped = False,
             res_reason = None\<rparr>"
  let ?r2 = "\<lparr>res_file = ''src/x.ts'', res_replacements = 0, res_skipped = False,
             res_reason = None\<rparr>"
  have p: "filePath ''/oc'' ''src/x.ts'' = ?p"
    by (simp add: filePath_def relativePath_def path_join_def normalize_def)
  have l1: "replace_loop [(''foo'', ''baz'')] (''foo bar foo'', 0) = Inr (''baz bar baz'', 2)"
    by (simp add: run_defs)
  have l2: "replace_loop [(''qux'', ''baz'')] (''foo bar foo'', 0) = Inr (''foo bar foo'', 0)"
    by (simp add: run_defs)
  have h1: "applyTranslation ?d ''/oc'' ?c1 None = Inr (?r1, ?d')"
    using applyTranslation_applied[where rel = None and config = ?c1 and t = "''src/x.ts''"
        and disk = ?d and od = "''/oc''" and ?c0.0 = "''foo bar foo''"
        and c = "''baz bar baz''" and n = 2]
    by (simp add: js_or_def p l1 applied_def del: replace_loop.simps)
  have h2: "applyTranslation ?d ''/oc'' ?c2 None = Inr (?r2, ?d)"
    using applyTranslation_applied[where rel = None and config = ?c2 and t = "''src/x.ts''"
        and disk = ?d and od = "''/oc''" and ?c0.0 = "''foo bar foo''"
        and c = "''foo bar foo''" and n = 0]
    by (simp add: js_or_def p l2 applied_def del: replace_loop.simps)
  from write_iff_replaced[where disk = ?d and config = ?c1 and result = ?r1 and disk' = ?d'
      and opencodeDir = "''/oc''" and rel = None] h1
  have "(0 < res_replacements ?r1) = (writes ?d' \<noteq> writes ?d)" by blast
  then have w1: "(0 < (2::nat)) = ([(?p, ''baz bar baz'')] \<noteq> [])" by simp
  from write_iff_replaced[where disk = ?d and config = ?c2 and result = ?r2 and disk' = ?d
      and opencodeDir = "''/oc''" and rel = None] h2
  have "(0 < res_replacements ?r2) = (writes ?d \<noteq> writes ?d)" by blast
  with h1 h2 w1 show ?thesis by blast
qed

text \<open>
  Claim C7. The path below the tree root: a target that begins with \<open>src/\<close> is joined
  under \<open>packages/opencode\<close>; so is every target that does not begin with \<open>packages/\<close>;
  a target that begins with \<open>packages/\<close> is taken as it is (the first test cannot
  apply to it). The file path is the join of the tree root and that path: for a clean
  absolute root and a clean relative target it is the root, a slash and the target,
  with \<open>packages/opencode/\<close> between them unless the target begins with \<open>packages/\<close>.
  The resolver \<open>filePath\<close> takes no file system: it checks no existence.
\<close>

theorem path_resolution:
  "(prefix ''src/'' t \<longrightarrow> relativePath t = path_join [''packages'', ''opencode'', t])
   \<and> (\<not> prefix ''packages/'' t \<longrightarrow> relativePath t = path_join [''packages'', ''opencode'', t])
   \<and> (prefix ''packages/'' t \<longrightarrow> relativePath t = t)
   \<and> filePath opencodeDir t = path_join [opencodeDir, relativePath t]
   \<and> (clean_absolute opencodeDir \<and> clean_relative t \<longrightarrow>
        filePath opencodeDir t =
          (if prefix ''packages/'' t then opencodeDir @ ''/'' @ t
           else opencodeDir @ ''/packages/opencode/'' @ t))
   \<and> filePath ''/home/u/opencode'' ''src/cli/cmd/tui/app.tsx''
       = ''/home/u/opencode/packages/opencode/src/cli/cmd/tui/app.tsx''
   \<and> filePath ''/home/u/opencode'' ''script/build.ts''
       = ''/home/u/opencode/packages/opencode/script/build.ts''
   \<and> filePath ''/home/u/opencode'' ''packages/ui/src/button.tsx''
       = ''/home/u/opencode/packages/ui/src/button.tsx''"
proof -
  have a: "prefix ''packages/'' t \<Longrightarrow> \<not> prefix ''src/'' t"
    by (cases t) auto
  have c: "clean_absolute opencodeDir \<and> clean_relative t \<longrightarrow>
        filePath opencodeDir t =
          (if prefix ''packages/'' t then opencodeDir @ ''/'' @ t
           else opencodeDir @ ''/packages/opencode/'' @ t)"
    using filePath_clean[of opencodeDir t] by blast
  have 1: "filePath ''/home/u/opencode'' ''src/cli/cmd/tui/app.tsx''
       = ''/home/u/opencode/packages/opencode/src/cli/cmd/tui/app.tsx''"
    by (simp add: filePath_def relativePath_def path_join_def normalize_def)
  have 2: "filePath ''/home/u/opencode'' ''script/build.ts''
       = ''/home/u/opencode/packages/opencode/script/build.ts''"
    by (simp add: filePath_def relativePath_def path_join_def normalize_def)
  have 3: "filePath ''/home/u/opencode'' ''packages/ui/src/button.tsx''
       = ''/home/u/opencode/packages/ui/src/button.tsx''"
    by (simp add: filePath_def relativePath_def path_join_def normalize_def)
  have r: "(prefix ''src/'' t \<longrightarrow> relativePath t = path_join [''packages'', ''opencode'', t])
   \<and> (\<not> prefix ''packages/'' t \<longrightarrow> relativePath t = path_join [''packages'', ''opencode'', t])
   \<and> (prefix ''packages/'' t \<longrightarrow> relativePath t = t)
   \<and> filePath opencodeDir t = path_join [opencodeDir, relativePath t]"
    using a by (auto simp: relativePath_def filePath_def)
  from r c 1 2 3 show ?thesis by blast
qed

theorem path_resolution_witness:
  "prefix ''src/'' ''src/a.ts''
   \<and> relativePath ''src/a.ts'' = ''packages/opencode/src/a.ts''
   \<and> \<not> prefix ''packages/'' ''lib/a.ts''
   \<and> relativePath ''lib/a.ts'' = ''packages/opencode/lib/a.ts''
   \<and> prefix ''packages/'' ''packages/app/a.ts''
   \<and> relativePath ''packages/app/a.ts'' = ''packages/app/a.ts''
   \<and> clean_absolute ''/home/u/opencode'' \<and> clean_relative ''lib/a.ts''
   \<and> filePath ''/home/u/opencode'' ''lib/a.ts'' = ''/home/u/opencode/packages/opencode/lib/a.ts''"
proof -
  have j1: "path_join [''packages'', ''opencode'', ''src/a.ts''] = ''packages/opencode/src/a.ts''"
    by (simp add: path_join_def normalize_def)
  have j2: "path_join [''packages'', ''opencode'', ''lib/a.ts''] = ''packages/opencode/lib/a.ts''"
    by (simp add: path_join_def normalize_def)
  have h1: "prefix ''src/'' ''src/a.ts''" by simp
  have h2: "\<not> prefix ''packages/'' ''lib/a.ts''" by simp
  have h3: "prefix ''packages/'' ''packages/app/a.ts''" by simp
  have h4: "clean_absolute ''/home/u/opencode'' \<and> clean_relative ''lib/a.ts''"
    by (simp add: clean_absolute_def clean_relative_def clean_segment_def)
  from path_resolution[of "''src/a.ts''"] h1 j1
  have r1: "relativePath ''src/a.ts'' = ''packages/opencode/src/a.ts''" by simp
  from path_resolution[of "''lib/a.ts''"] h2 j2
  have r2: "relativePath ''lib/a.ts'' = ''packages/opencode/lib/a.ts''" by simp
  from path_resolution[of "''packages/app/a.ts''"] h3
  have r3: "relativePath ''packages/app/a.ts'' = ''packages/app/a.ts''" by blast
  from path_resolution[of "''lib/a.ts''" "''/home/u/opencode''"] h4
  have "filePath ''/home/u/opencode'' ''lib/a.ts'' =
          (if prefix ''packages/'' ''lib/a.ts'' then ''/home/u/opencode'' @ ''/'' @ ''lib/a.ts''
           else ''/home/u/opencode'' @ ''/packages/opencode/'' @ ''lib/a.ts'')"
    by blast
  then have r4: "filePath ''/home/u/opencode'' ''lib/a.ts''
      = ''/home/u/opencode/packages/opencode/lib/a.ts''"
    by simp
  from h1 h2 h3 h4 r1 r2 r3 r4 show ?thesis by blast
qed

section \<open>The batch applier\<close>



text \<open>
  Claim C9. The version of the tree decides nothing but printed lines: the run with any
  version \<open>v\<close> fails or succeeds as the run with the manifest's own version does, with
  the same statistics and the same file system. When the versions differ and the run
  returns, its first four lines are the warning. With tree version \<open>1.2.11\<close> against
  the manifest version \<open>1.2.10\<close> the accounting example gives its usual statistics.
\<close>

theorem version_mismatch_advisory:
  "map_sum (\<lambda>e. e) outcome (main P disk od td v mc)
     = map_sum (\<lambda>e. e) outcome (main P disk od td (version mc) mc)
   \<and> (v \<noteq> version mc \<and> main P disk od td v mc = Inr st \<longrightarrow>
        take 4 (console st)
          = [Warn_version_mismatch, Warn_opencode_version v, Warn_plugin_version (version mc),
             Warn_untranslated])
   \<and> version accounting_manifest = ''1.2.10''
   \<and> map_sum (\<lambda>e. e) stats
         (main accounting_docs accounting_disk ''/oc'' ''/tr'' ''1.2.11'' accounting_manifest)
       = Inr \<lparr>filesProcessed = 2, filesSkipped = 1, totalReplacements = 3, errors = []\<rparr>"
proof (intro conjI impI)
  show "map_sum (\<lambda>e. e) outcome (main P disk od td v mc)
     = map_sum (\<lambda>e. e) outcome (main P disk od td (version mc) mc)"
    by (rule main_outcome)
next
  assume a: "v \<noteq> version mc \<and> main P disk od td v mc = Inr st"
  then obtain ls where "console st = version_lines v (version mc) @ Applying_translations # ls"
    using main_console by blast
  with a show "take 4 (console st)
          = [Warn_version_mismatch, Warn_opencode_version v, Warn_plugin_version (version mc),
             Warn_untranslated]"
    by (simp add: version_lines_def)
next
  show "version accounting_manifest = ''1.2.10''"
    by (simp add: accounting_manifest_def)
  show "map_sum (\<lambda>e. e) stats
         (main accounting_docs accounting_disk ''/oc'' ''/tr'' ''1.2.11'' accounting_manifest)
       = Inr \<lparr>filesProcessed = 2, filesSkipped = 1, totalReplacements = 3, errors = []\<rparr>"
    by (rule accounting_run)
qed

theorem version_mismatch_advisory_witness:
  "''1.2.11'' \<noteq> version accounting_manifest
   \<and> (\<exists>st. main accounting_docs accounting_disk ''/oc'' ''/tr'' ''1.2.11'' accounting_manifest
             = Inr st
         \<and> take 4 (console st)
             = [Warn_version_mismatch, Warn_opencode_version ''1.2.11'',
                Warn_plugin_version ''1.2.10'', Warn_untranslated])"
proof -
  have ne: "''1.2.11'' \<noteq> version accounting_manifest"
    by (simp add: accounting_manifest_def)
  have ver: "version accounting_manifest = ''1.2.10''"
    by (simp add: accounting_manifest_def)
  obtain st where st: "main accounting_docs accounting_disk ''/oc'' ''/tr'' ''1.2.11''
      accounting_manifest = Inr st"
    using accounting_run[of "''1.2.11''"]
    by (cases "main accounting_docs accounting_disk ''/oc'' ''/tr'' ''1.2.11''
      accounting_manifest") simp_all
  from version_mismatch_advisory[where v = "''1.2.11''" and mc = accounting_manifest
      and P = accounting_docs and disk = accounting_disk and od = "''/oc''" and td = "''/tr''"
      and st = st] ne st
  have "take 4 (console st)
          = [Warn_version_mismatch, Warn_opencode_version ''1.2.11'',
             Warn_plugin_version (version accounting_manifest), Warn_untranslated]"
    by blast
  with ne st ver show ?thesis by auto
qed

section \<open>Applying a document twice\<close>




end
